theory Spec2Isabelle
  imports Main "HOL-Library.Sublist" "HOL-Library.AList"
begin

section \<open>JavaScript strings\<close>

text \<open>
  A JavaScript string is the list of its code units. The model is over \<^typ>\<open>string\<close>, so it
  covers the texts whose code units are below 256; \<open>CHR 0xA0\<close> is the no-break space, which
  JavaScript counts as white space.
\<close>

text \<open>\<open>s.includes(sub)\<close>, \<open>s.endsWith(suf)\<close>, \<open>s.startsWith(pre)\<close>\<close>

definition includes_str :: "string \<Rightarrow> string \<Rightarrow> bool" where
  "includes_str s sub = sublist sub s"

definition endsWith :: "string \<Rightarrow> string \<Rightarrow> bool" where
  "endsWith s suf = suffix suf s"

definition startsWith :: "string \<Rightarrow> string \<Rightarrow> bool" where
  "startsWith s pre = prefix pre s"

text \<open>
  \<open>s.replace(sub, rep)\<close> with a string pattern: only the first occurrence is replaced. The
  replacement texts of the program, \<open>''\<close> and \<open>'.js'\<close>, have no \<open>$\<close> pattern.
\<close>

fun replace :: "string \<Rightarrow> string \<Rightarrow> string \<Rightarrow> string" where
  "replace sub rep [] = (if sub = [] then rep else [])"
| "replace sub rep (c # cs) =
     (if prefix sub (c # cs) then rep @ drop (length sub) (c # cs)
      else c # replace sub rep cs)"

text \<open>\<open>s.split('\n')\<close>: the empty string splits into one empty line.\<close>

fun split_nl :: "string \<Rightarrow> string list" where
  "split_nl [] = [[]]"
| "split_nl (c # cs) =
     (if c = CHR 0x0A then [] # split_nl cs
      else (case split_nl cs of [] \<Rightarrow> [[c]] | l # ls \<Rightarrow> (c # l) # ls))"

text \<open>\<open>lines.join(sep)\<close>\<close>

fun join :: "string \<Rightarrow> string list \<Rightarrow> string" where
  "join sep [] = []"
| "join sep [l] = l"
| "join sep (l # m # ls) = l @ sep @ join sep (m # ls)"

text \<open>The character classes of the patterns: \<open>\s\<close>, \<open>\w\<close>, \<open>[A-Z]\<close>, \<open>[a-z]\<close>.\<close>

definition is_space :: "char \<Rightarrow> bool" where
  "is_space c = (c \<in> set [CHR 0x09, CHR 0x0A, CHR 0x0B, CHR 0x0C, CHR 0x0D, CHR 0x20, CHR 0xA0])"

definition is_upper :: "char \<Rightarrow> bool" where
  "is_upper c = (65 \<le> (of_char c :: int) \<and> (of_char c :: int) \<le> 90)"

definition is_lower :: "char \<Rightarrow> bool" where
  "is_lower c = (97 \<le> (of_char c :: int) \<and> (of_char c :: int) \<le> 122)"

definition is_digit :: "char \<Rightarrow> bool" where
  "is_digit c = (48 \<le> (of_char c :: int) \<and> (of_char c :: int) \<le> 57)"

definition is_word :: "char \<Rightarrow> bool" where
  "is_word c = (is_lower c \<or> is_upper c \<or> is_digit c \<or> c = CHR ''_'')"

text \<open>\<open>s.trim()\<close> removes white space and line terminators at both ends.\<close>

definition trim :: "string \<Rightarrow> string" where
  "trim s = rev (dropWhile is_space (rev (dropWhile is_space s)))"

text \<open>
  \<open>s.toUpperCase()\<close>, on the letters \<open>a\<close> to \<open>z\<close>. The program applies it to the first
  character of an event name only, which the pattern restricts to a word character
  (lemma \<open>fires_names\<close> below); on these the mapping is the one of JavaScript.
\<close>

definition toUpperCase_char :: "char \<Rightarrow> char" where
  "toUpperCase_char c = (if is_lower c then char_of ((of_char c :: int) - 32) else c)"

definition toUpperCase :: "string \<Rightarrow> string" where
  "toUpperCase s = map toUpperCase_char s"

section \<open>Regular expressions\<close>

text \<open>
  The patterns of the program are sequences of literals, single character classes, greedy and
  lazy repetitions of a character class, and capture groups that are not nested. A pattern
  is the list of its items; \<open>Open\<close> and \<open>Close\<close> are the parentheses of a group.
\<close>

datatype item =
    Lit string
  | One "char \<Rightarrow> bool"
  | Opt "char \<Rightarrow> bool"
  | Star "char \<Rightarrow> bool"
  | Plus "char \<Rightarrow> bool"
  | LazyStar "char \<Rightarrow> bool"
  | Open
  | Close

text \<open>
  \<open>rmatch p s\<close> is the backtracking match of pattern \<open>p\<close> at the start of \<open>s\<close>: a greedy
  repetition tries the longest run first, a lazy one the shortest. The result is the rest of
  the input after the match, and the input as it stood at each parenthesis, in order.
\<close>

fun rmatch :: "item list \<Rightarrow> string \<Rightarrow> (string list \<times> string) option" where
  "rmatch [] s = Some ([], s)"
| "rmatch (Lit l # p) s = (if prefix l s then rmatch p (drop (length l) s) else None)"
| "rmatch (One c # p) [] = None"
| "rmatch (One c # p) (x # xs) = (if c x then rmatch p xs else None)"
| "rmatch (Opt c # p) [] = rmatch p []"
| "rmatch (Opt c # p) (x # xs) =
     (if c x then (case rmatch p xs of Some m \<Rightarrow> Some m | None \<Rightarrow> rmatch p (x # xs))
      else rmatch p (x # xs))"
| "rmatch (Star c # p) [] = rmatch p []"
| "rmatch (Star c # p) (x # xs) =
     (if c x then (case rmatch (Star c # p) xs of Some m \<Rightarrow> Some m | None \<Rightarrow> rmatch p (x # xs))
      else rmatch p (x # xs))"
| "rmatch (Plus c # p) [] = None"
| "rmatch (Plus c # p) (x # xs) = (if c x then rmatch (Star c # p) xs else None)"
| "rmatch (LazyStar c # p) [] = rmatch p []"
| "rmatch (LazyStar c # p) (x # xs) =
     (case rmatch p (x # xs) of Some m \<Rightarrow> Some m
      | None \<Rightarrow> (if c x then rmatch (LazyStar c # p) xs else None))"
| "rmatch (Open # p) s = (case rmatch p s of None \<Rightarrow> None | Some (ms, e) \<Rightarrow> Some (s # ms, e))"
| "rmatch (Close # p) s = (case rmatch p s of None \<Rightarrow> None | Some (ms, e) \<Rightarrow> Some (s # ms, e))"

text \<open>
  The first match: the start positions are tried from left to right. The result keeps the
  input from the start of the match on.
\<close>

fun search :: "item list \<Rightarrow> string \<Rightarrow> (string \<times> string list \<times> string) option" where
  "search p [] = (case rmatch p [] of None \<Rightarrow> None | Some (ms, e) \<Rightarrow> Some ([], ms, e))"
| "search p (x # xs) =
     (case rmatch p (x # xs) of None \<Rightarrow> search p xs | Some (ms, e) \<Rightarrow> Some (x # xs, ms, e))"

text \<open>
  The match array: the whole match at index 0, then the text of the groups. \<open>at m k\<close> is
  \<open>m[k]\<close>, with \<open>None\<close> for \<open>undefined\<close>.
\<close>

fun groups :: "string list \<Rightarrow> string list" where
  "groups (a # b # ms) = take (length a - length b) a # groups ms"
| "groups _ = []"

definition match_array :: "string \<times> string list \<times> string \<Rightarrow> string list" where
  "match_array m = (case m of (s, ms, e) \<Rightarrow> take (length s - length e) s # groups ms)"

definition at :: "'a list \<Rightarrow> nat \<Rightarrow> 'a option" where
  "at xs k = (if k < length xs then Some (xs ! k) else None)"

text \<open>\<open>s.match(p)\<close> for a pattern without the \<open>g\<close> flag.\<close>

definition match :: "string \<Rightarrow> item list \<Rightarrow> string list option" where
  "match s p = map_option match_array (search p s)"

lemma rmatch_length: "rmatch p s = Some (ms, e) \<Longrightarrow> length e \<le> length s"
proof (induction p s arbitrary: ms e rule: rmatch.induct)
  case (2 l p s)
  then show ?case by (fastforce split: if_splits)
next
  case (4 c p x xs)
  then show ?case by (fastforce split: if_splits)
next
  case (6 c p x xs)
  then show ?case by (fastforce split: if_splits option.splits)
next
  case (8 c p x xs)
  then show ?case by (fastforce split: if_splits option.splits)
next
  case (10 c p x xs)
  then show ?case by (fastforce split: if_splits)
next
  case (12 c p x xs)
  then show ?case by (fastforce split: if_splits option.splits)
qed (auto split: option.splits)

lemma search_length:
  "search p s = Some (m, ms, e) \<Longrightarrow> length e \<le> length m \<and> length m \<le> length s"
proof (induction s)
  case Nil
  then show ?case by (auto split: option.splits dest: rmatch_length)
next
  case (Cons x xs)
  then show ?case by (fastforce split: option.splits dest: rmatch_length)
qed

text \<open>
  \<open>s.matchAll(p)\<close> for a pattern with the \<open>g\<close> flag: the next search starts where the
  last match ended, one code unit further after an empty match.
\<close>

function matchAll :: "string \<Rightarrow> item list \<Rightarrow> string list list" where
  "matchAll s p =
     (case search p s of
        None \<Rightarrow> []
      | Some (m, ms, e) \<Rightarrow>
          match_array (m, ms, e) #
            (if length e = length m then (case e of [] \<Rightarrow> [] | _ # e' \<Rightarrow> matchAll e' p)
             else matchAll e p))"
  by pat_completeness auto
termination
proof (relation "measure (\<lambda>(s, p). length s)")
  show "wf (measure (\<lambda>(s, p). length s))" by simp
next
  fix s p x2 m y ms e c e'
  assume "search p s = Some x2" "(m, y) = x2" "(ms, e) = y" "length e = length m" "e = c # e'"
  then have "search p s = Some (m, ms, c # e')" by simp
  from search_length [OF this] show "((e', p), (s, p)) \<in> measure (\<lambda>(s, p). length s)" by simp
next
  fix s p x2 m y ms e
  assume "search p s = Some x2" "(m, y) = x2" "(ms, e) = y" "length e \<noteq> length m"
  then have "search p s = Some (m, ms, e)" by simp
  from search_length [OF this] \<open>length e \<noteq> length m\<close>
  show "((e, p), (s, p)) \<in> measure (\<lambda>(s, p). length s)" by simp
qed

declare matchAll.simps [simp del]


section \<open>Objects\<close>

text \<open>
  An object with string values is the list of its own properties in insertion order.
  Assigning to a key that exists keeps its place; assigning a string to \<open>__proto__\<close> on an
  object literal changes nothing. \<open>Object.entries\<close> and \<open>Object.keys\<close> list the keys that
  are array indices first, in ascending order, then the others in insertion order.
\<close>

type_synonym obj = "(string \<times> string) list"

definition obj_set :: "string \<Rightarrow> string \<Rightarrow> obj \<Rightarrow> obj" where
  "obj_set k v ob = (if k = ''__proto__'' then ob else AList.update k v ob)"

definition digits_value :: "string \<Rightarrow> int" where
  "digits_value k = foldl (\<lambda>n c. 10 * n + ((of_char c :: int) - 48)) 0 k"

definition is_array_index :: "string \<Rightarrow> bool" where
  "is_array_index k =
     (k \<noteq> [] \<and> list_all is_digit k \<and> (k = ''0'' \<or> take 1 k \<noteq> ''0'') \<and>
      digits_value k \<le> 4294967294)"

definition entries :: "obj \<Rightarrow> (string \<times> string) list" where
  "entries ob =
     sort_key (\<lambda>kv. digits_value (fst kv)) (filter (\<lambda>kv. is_array_index (fst kv)) ob) @
     filter (\<lambda>kv. \<not> is_array_index (fst kv)) ob"

section \<open>Extraction from a source text\<close>

text \<open>\<open>/export class (Md\w+)/\<close>\<close>

definition className_re :: "item list" where
  "className_re = [Lit ''export class '', Open, Lit ''Md'', Plus is_word, Close]"

definition extractClassName :: "string \<Rightarrow> string option" where
  "extractClassName content =
     (case match content className_re of Some m \<Rightarrow> at m 1 | None \<Rightarrow> None)"

text \<open>\<open>/@customElement\(['"`]([^'"`]+)['"`]\)/\<close>\<close>

definition is_quote :: "char \<Rightarrow> bool" where
  "is_quote c = (c \<in> set [CHR 0x27, CHR 0x22, CHR 0x60])"

definition tagName_re :: "item list" where
  "tagName_re =
     [Lit ''@customElement('', One is_quote, Open, Plus (\<lambda>c. \<not> is_quote c), Close,
      One is_quote, Lit '')'']"

definition extractTagName :: "string \<Rightarrow> string option" where
  "extractTagName content =
     (case match content tagName_re of Some m \<Rightarrow> at m 1 | None \<Rightarrow> None)"

text \<open>
  The clean-up of a documentation block:
  \<open>.split('\n').map(line => line.replace(/^\s*\*\s?/, '').trim())
   .filter(line => line && !line.startsWith('@'))\<close>.
  The pattern starts with \<open>^\<close> and has no \<open>m\<close> flag, so it matches at the start of the
  line or not at all.
\<close>

definition marker_re :: "item list" where
  "marker_re = [Star is_space, Lit ''*'', Opt is_space]"

definition strip_marker :: "string \<Rightarrow> string" where
  "strip_marker line = (case rmatch marker_re line of Some (ms, e) \<Rightarrow> e | None \<Rightarrow> line)"

definition clean_lines :: "string \<Rightarrow> string list" where
  "clean_lines docContent =
     filter (\<lambda>line. line \<noteq> [] \<and> \<not> startsWith line ''@'')
       (map (\<lambda>line. trim (strip_marker line)) (split_nl docContent))"

text \<open>
  \<open>/\/\*\*\s*([\s\S]*?)\s*\*\/\s*export class/\<close> and
  \<open>/\/\*\*\s*([\s\S]*?)\s*\*\/\s*@property[^}]*?\s+(\w+)/g\<close>
\<close>

definition classDoc_re :: "item list" where
  "classDoc_re =
     [Lit ''/**'', Star is_space, Open, LazyStar (\<lambda>c. True), Close, Star is_space, Lit ''*/'',
      Star is_space, Lit ''export class'']"

definition propertyDoc_re :: "item list" where
  "propertyDoc_re =
     [Lit ''/**'', Star is_space, Open, LazyStar (\<lambda>c. True), Close, Star is_space, Lit ''*/'',
      Star is_space, Lit ''@property'', LazyStar (\<lambda>c. c \<noteq> CHR ''}''), Plus is_space,
      Open, Plus is_word, Close]"

text \<open>
  The loop over the property matches. Reading a group that the match array does not have
  gives \<open>undefined\<close>, and calling a method on it raises a \<open>TypeError\<close>.
\<close>

datatype error = ENOENT | ENOTDIR | EISDIR | EEXIST | EACCES | TypeError

fun propertyDocs_loop :: "string list list \<Rightarrow> obj \<Rightarrow> error + obj" where
  "propertyDocs_loop [] propertyDocs = Inr propertyDocs"
| "propertyDocs_loop (m # matches) propertyDocs =
     (case (at m 1, at m 2) of
        (Some docContent, Some propertyName) \<Rightarrow>
          (let cleanDoc = join '' '' (clean_lines docContent)
           in propertyDocs_loop matches
                (if cleanDoc \<noteq> [] then obj_set propertyName cleanDoc propertyDocs
                 else propertyDocs))
      | _ \<Rightarrow> Inl TypeError)"

definition extractDocumentation :: "string \<Rightarrow> error + (string \<times> obj)" where
  "extractDocumentation content =
     (case (case match content classDoc_re of
              None \<Rightarrow> Inr []
            | Some m \<Rightarrow> (case at m 1 of
                           Some docContent \<Rightarrow> Inr (join ''\<newline>'' (clean_lines docContent))
                         | None \<Rightarrow> Inl TypeError)) of
        Inl e \<Rightarrow> Inl e
      | Inr documentation \<Rightarrow>
          (case propertyDocs_loop (matchAll content propertyDoc_re) [] of
             Inl e \<Rightarrow> Inl e
           | Inr propertyDocs \<Rightarrow> Inr (documentation, propertyDocs)))"

section \<open>The file system\<close>

text \<open>
  The program reads the source tree through two calls, \<open>fs.readdir\<close> and \<open>fs.readFile\<close>;
  each returns its result or raises. A directory entry has a name and a kind.
  \<open>path.join\<close> is applied to a directory path and one name of a listing.
\<close>

datatype dirent = Dirent (dirent_name: string) (isDirectory: bool)

record fs =
  readdir :: "string \<Rightarrow> error + dirent list"
  readFile :: "string \<Rightarrow> error + string"

definition path_join :: "string \<Rightarrow> string \<Rightarrow> string" where
  "path_join dir file = dir @ ''/'' @ file"

definition TEMP_DIR :: string where
  "TEMP_DIR = ''temp-material-web''"

definition OUTPUT_DIR :: string where
  "OUTPUT_DIR = ''src''"

section \<open>Events\<close>

text \<open>\<open>/@fires\s+(\w+)\s+\{[^}]*\}\s*([^@\n]*)/g\<close>\<close>

definition fires_re :: "item list" where
  "fires_re =
     [Lit ''@fires'', Plus is_space, Open, Plus is_word, Close, Plus is_space, Lit ''{'',
      Star (\<lambda>c. c \<noteq> CHR ''}''), Lit ''}'', Star is_space,
      Open, Star (\<lambda>c. c \<noteq> CHR ''@'' \<and> c \<noteq> CHR 0x0A), Close]"

definition charAt :: "string \<Rightarrow> nat \<Rightarrow> string" where
  "charAt s k = take 1 (drop k s)"

definition slice :: "string \<Rightarrow> nat \<Rightarrow> string" where
  "slice s k = drop k s"

definition reactEventName :: "string \<Rightarrow> string" where
  "reactEventName eventName = ''on'' @ toUpperCase (charAt eventName 0) @ slice eventName 1"

fun events_loop :: "string list list \<Rightarrow> obj \<Rightarrow> error + obj" where
  "events_loop [] events = Inr events"
| "events_loop (m # fireMatches) events =
     (case at m 1 of
        Some eventName \<Rightarrow> events_loop fireMatches (obj_set (reactEventName eventName) eventName events)
      | None \<Rightarrow> Inl TypeError)"

definition internal_candidate :: "string \<Rightarrow> bool" where
  "internal_candidate file =
     (endsWith file ''.ts'' \<and> \<not> includes_str file ''styles'' \<and> \<not> includes_str file ''test'')"

text \<open>The loop over the files of the internal directory returns at the first candidate.\<close>

fun internal_loop :: "fs \<Rightarrow> string \<Rightarrow> string list \<Rightarrow> error + obj" where
  "internal_loop fs internalPath [] = Inr []"
| "internal_loop fs internalPath (file # files) =
     (if internal_candidate file then
        (case readFile fs (path_join internalPath file) of
           Inl e \<Rightarrow> Inl e
         | Inr content \<Rightarrow> events_loop (matchAll content fires_re) [])
      else internal_loop fs internalPath files)"

definition extractEvents :: "fs \<Rightarrow> string \<Rightarrow> obj" where
  "extractEvents fs componentPath =
     (case (case readdir fs (path_join componentPath ''internal'') of
              Inl e \<Rightarrow> Inl e
            | Inr files \<Rightarrow>
                internal_loop fs (path_join componentPath ''internal'') (map dirent_name files)) of
        Inl e \<Rightarrow> []
      | Inr events \<Rightarrow> events)"

section \<open>Variants and components\<close>

record variant =
  fileName :: string
  className :: string
  tagName :: string
  importPath :: string
  events :: obj
  documentation :: string
  propertyDocs :: obj

record component =
  name :: string
  variants :: "variant list"

definition candidate :: "string \<Rightarrow> bool" where
  "candidate file =
     (endsWith file ''.ts'' \<and> \<not> includes_str file ''internal'' \<and> \<not> includes_str file ''test'' \<and>
      \<not> includes_str file ''demo'')"

text \<open>
  One round of the loop of \<open>findAllComponentVariants\<close>: the variant that the file adds to the
  list, if any, or the error that a call raises. \<open>className && tagName\<close> holds for strings
  that are neither \<open>null\<close> nor empty.
\<close>

definition visit_file :: "fs \<Rightarrow> string \<Rightarrow> string \<Rightarrow> string \<Rightarrow> error + variant option" where
  "visit_file fs componentPath componentName file =
     (if candidate file then
        (case readFile fs (path_join componentPath file) of
           Inl e \<Rightarrow> Inl e
         | Inr content \<Rightarrow>
             (if includes_str content ''@customElement'' \<and> includes_str content ''export class'' then
                (case extractDocumentation content of
                   Inl e \<Rightarrow> Inl e
                 | Inr (doc, pdocs) \<Rightarrow>
                     (case (extractClassName content, extractTagName content) of
                        (Some cn, Some tn) \<Rightarrow>
                          (if cn \<noteq> [] \<and> tn \<noteq> [] then
                             Inr (Some \<lparr>fileName = replace ''.ts'' [] file,
                                        className = cn,
                                        tagName = tn,
                                        importPath = ''@material/web/'' @ componentName @ ''/'' @
                                                     replace ''.ts'' ''.js'' file,
                                        events = extractEvents fs componentPath,
                                        documentation = doc,
                                        propertyDocs = pdocs\<rparr>)
                           else Inr None)
                      | _ \<Rightarrow> Inr None))
              else Inr None))
      else Inr None)"

fun variants_loop :: "fs \<Rightarrow> string \<Rightarrow> string \<Rightarrow> string list \<Rightarrow> error + variant list" where
  "variants_loop fs componentPath componentName [] = Inr []"
| "variants_loop fs componentPath componentName (file # files) =
     (case visit_file fs componentPath componentName file of
        Inl e \<Rightarrow> Inl e
      | Inr vo \<Rightarrow>
          (case variants_loop fs componentPath componentName files of
             Inl e \<Rightarrow> Inl e
           | Inr vs \<Rightarrow> Inr (case vo of None \<Rightarrow> vs | Some v \<Rightarrow> v # vs)))"

definition findAllComponentVariants :: "fs \<Rightarrow> string \<Rightarrow> string \<Rightarrow> variant list" where
  "findAllComponentVariants fs componentPath componentName =
     (case (case readdir fs componentPath of
              Inl e \<Rightarrow> Inl e
            | Inr files \<Rightarrow>
                variants_loop fs componentPath componentName (map dirent_name files)) of
        Inl e \<Rightarrow> []
      | Inr vs \<Rightarrow> vs)"

definition component_dir :: "dirent \<Rightarrow> bool" where
  "component_dir entry =
     (isDirectory entry \<and> \<not> startsWith (dirent_name entry) ''.'' \<and>
      dirent_name entry \<notin> set [''docs'', ''testing'', ''tokens'', ''scripts'', ''catalog''])"

fun components_loop :: "fs \<Rightarrow> string \<Rightarrow> dirent list \<Rightarrow> component list" where
  "components_loop fs componentsPath [] = []"
| "components_loop fs componentsPath (entry # es) =
     (if component_dir entry then
        (let vs = findAllComponentVariants fs (path_join componentsPath (dirent_name entry))
                    (dirent_name entry)
         in if length vs > 0
            then \<lparr>name = dirent_name entry, variants = vs\<rparr> # components_loop fs componentsPath es
            else components_loop fs componentsPath es)
      else components_loop fs componentsPath es)"

text \<open>The listing of the root is outside any handler: its error reaches the caller.\<close>

definition analyzeComponentStructure :: "fs \<Rightarrow> error + component list" where
  "analyzeComponentStructure fs =
     (case readdir fs TEMP_DIR of
        Inl e \<Rightarrow> Inl e
      | Inr es \<Rightarrow> Inr (components_loop fs TEMP_DIR es))"

section \<open>Generation\<close>

text \<open>
  \<open>new Date().toISOString()\<close> is a parameter of the generators: the text \<open>timestamp\<close>.
  The headers of a module and of the main index differ in their title only.
\<close>

definition header :: "string \<Rightarrow> string \<Rightarrow> string" where
  "header title timestamp =
     ''/**\<newline> * @fileoverview '' @ title @ ''\<newline> * \<newline> * This file was auto-generated on '' @
     timestamp @
     ''\<newline> * \<newline> * DO NOT EDIT MANUALLY - This file is generated by generate.js\<newline>'' @
     '' * To regenerate, run: npm run generate\<newline> * \<newline> * @generated\<newline> */''"

definition import_line :: "variant \<Rightarrow> string" where
  "import_line v =
     ''import { '' @ className v @ '' as _'' @ className v @ '' } from '' @ [CHR 0x27] @
     importPath v @ [CHR 0x27]"

definition typeDefinition :: "variant \<Rightarrow> string" where
  "typeDefinition v =
     ''\<newline>/**\<newline> * Props for the `'' @ className v @ ''` component.\<newline>'' @
     '' * This interface is used to provide the props for the `'' @ className v @
     ''` component.\<newline> *\<newline> */\<newline>export type '' @ className v @
     ''Props = ComponentProps<typeof '' @ className v @ ''>''"

definition elementInterface :: "variant \<Rightarrow> string" where
  "elementInterface v =
     ''\<newline>export interface '' @ className v @ ''Element extends _'' @ className v @ '' {}''"

definition eventsObj :: "variant \<Rightarrow> string" where
  "eventsObj v =
     (if length (entries (events v)) > 0 then
        ''{\<newline>        '' @
        join '',\<newline>        ''
          (map (\<lambda>kv. fst kv @ '': '' @ [CHR 0x27] @ snd kv @ [CHR 0x27]) (entries (events v))) @
        '',\<newline>    }''
      else ''{}'')"

definition paramDocs :: "variant \<Rightarrow> string" where
  "paramDocs v =
     join ''\<newline>'' (map (\<lambda>kv. '' * @param {any} '' @ fst kv @ '' - '' @ snd kv)
       (entries (propertyDocs v)))"

text \<open>\<open>.replace(/([A-Z])/g, ' $1')\<close> puts a space before every capital letter.\<close>

definition space_capitals :: "string \<Rightarrow> string" where
  "space_capitals s = concat (map (\<lambda>c. if is_upper c then [CHR 0x20, c] else [c]) s)"

definition fullDocumentation :: "variant \<Rightarrow> string" where
  "fullDocumentation v =
     (if documentation v \<noteq> [] then
        documentation v @ ''\<newline> *\<newline> * @component\<newline>'' @ paramDocs v
      else
        ''Material Design '' @ trim (space_capitals (replace ''Md'' [] (className v))) @
        '' component.\<newline> * This component is a React wrapper around the `'' @ tagName v @
        ''` custom element.\<newline> *\<newline> * @component\<newline>'' @ paramDocs v)"

definition componentDefinition :: "variant \<Rightarrow> string" where
  "componentDefinition v =
     ''\<newline>/**\<newline> * '' @ fullDocumentation v @ ''\<newline> */\<newline>export const '' @ className v @
     '' = createComponent({\<newline>    react: React,\<newline>    tagName: '' @ [CHR 0x27] @ tagName v @
     [CHR 0x27] @ '',\<newline>    elementClass: _'' @ className v @ '',\<newline>    events: '' @
     eventsObj v @ '',\<newline>})''"

definition generateReactWrapper :: "string \<Rightarrow> component \<Rightarrow> string" where
  "generateReactWrapper timestamp c =
     (if length (variants c) = 0 then []
      else
        header (''React wrappers for Material Web '' @ name c @ '' components'') timestamp @
        ''\<newline>\<newline>'' @ [CHR 0x27] @ ''use client'' @ [CHR 0x27] @ ''\<newline>\<newline>'' @
        ''import { createComponent } from '' @ [CHR 0x27] @ ''@lit/react'' @ [CHR 0x27] @
        ''\<newline>import React, { ComponentProps } from '' @ [CHR 0x27] @ ''react'' @ [CHR 0x27] @
        ''\<newline>'' @
        join ''\<newline>'' (map import_line (variants c)) @ ''\<newline>'' @
        join ''\<newline>'' (map typeDefinition (variants c)) @ ''\<newline>'' @
        join ''\<newline>'' (map elementInterface (variants c)) @ ''\<newline>'' @
        join ''\<newline>'' (map componentDefinition (variants c)) @ ''\<newline>'')"

record exportRecord =
  componentName :: string
  propsName :: string
  elementName :: string
  folder :: string

definition export_line :: "exportRecord \<Rightarrow> string" where
  "export_line exp =
     ''export { '' @ componentName exp @ '', type '' @ propsName exp @ '', type '' @
     elementName exp @ '' } from '' @ [CHR 0x27] @ ''./'' @ folder exp @ [CHR 0x27]"

text \<open>The text that \<open>generateMainIndex\<close> writes to the main index.\<close>

definition indexContent :: "string \<Rightarrow> exportRecord list \<Rightarrow> string" where
  "indexContent timestamp allExports =
     header ''Main exports for all Material Web React components'' timestamp @ ''\<newline>\<newline>'' @
     join ''\<newline>'' (map export_line allExports) @ ''\<newline>''"

definition exports_of :: "component \<Rightarrow> exportRecord list" where
  "exports_of c =
     map (\<lambda>v. \<lparr>componentName = className v,
                propsName = className v @ ''Props'',
                elementName = className v @ ''Element'',
                folder = name c\<rparr>) (variants c)"

section \<open>Writing the output\<close>

text \<open>
  The program writes through two calls, \<open>fs.mkdir\<close> with \<open>recursive: true\<close> and
  \<open>fs.writeFile\<close>. Each takes the output tree as it stands and returns the new tree, or
  raises; the tree is a state of any type \<open>'s\<close>, and what the calls do to it is left to the
  environment.
\<close>

record 's outfs =
  mkdir :: "string \<Rightarrow> 's \<Rightarrow> error + 's"
  writeFile :: "string \<Rightarrow> string \<Rightarrow> 's \<Rightarrow> error + 's"

definition generateMainIndex :: "'s outfs \<Rightarrow> string \<Rightarrow> exportRecord list \<Rightarrow> 's \<Rightarrow> error + 's" where
  "generateMainIndex out timestamp allExports s =
     writeFile out (path_join OUTPUT_DIR ''index.ts'') (indexContent timestamp allExports) s"

text \<open>
  The loop of \<open>createOutputStructure\<close>: for each component its directory is made and its
  module written, and its exports are added to \<open>allExports\<close>. An error of a call ends the
  loop. \<open>clock k\<close> is the time stamp that the \<open>k\<close>-th text gets.
\<close>

fun wrappers_loop ::
  "'s outfs \<Rightarrow> (nat \<Rightarrow> string) \<Rightarrow> nat \<Rightarrow> component list \<Rightarrow> exportRecord list \<Rightarrow> 's \<Rightarrow>
   error + (exportRecord list \<times> 's)" where
  "wrappers_loop out clock k [] allExports s = Inr (allExports, s)"
| "wrappers_loop out clock k (c # cs) allExports s =
     (case mkdir out (path_join OUTPUT_DIR (name c)) s of
        Inl e \<Rightarrow> Inl e
      | Inr s1 \<Rightarrow>
          (case writeFile out (path_join (path_join OUTPUT_DIR (name c)) ''index.tsx'')
                  (generateReactWrapper (clock k) c) s1 of
             Inl e \<Rightarrow> Inl e
           | Inr s2 \<Rightarrow> wrappers_loop out clock (Suc k) cs (allExports @ exports_of c) s2))"

definition createOutputStructure ::
  "'s outfs \<Rightarrow> (nat \<Rightarrow> string) \<Rightarrow> component list \<Rightarrow> 's \<Rightarrow> error + 's" where
  "createOutputStructure out clock components s =
     (case mkdir out OUTPUT_DIR s of
        Inl e \<Rightarrow> Inl e
      | Inr s0 \<Rightarrow>
          (case wrappers_loop out clock 0 components [] s0 of
             Inl e \<Rightarrow> Inl e
           | Inr (allExports, s1) \<Rightarrow>
               generateMainIndex out (clock (length components)) allExports s1))"

text \<open>
  The run: \<open>fs\<close> is the tree that \<open>cloneRepository\<close> left (a clone that fails ends the
  process before anything is read). An error of the analysis or of the output ends the run
  with that error; \<open>cleanup\<close> catches its own.
\<close>

definition main :: "'s outfs \<Rightarrow> fs \<Rightarrow> (nat \<Rightarrow> string) \<Rightarrow> 's \<Rightarrow> error + 's" where
  "main out fs clock s =
     (case analyzeComponentStructure fs of
        Inl e \<Rightarrow> Inl e
      | Inr components \<Rightarrow> createOutputStructure out clock components s)"

section \<open>The calls of a run\<close>

text \<open>
  The output calls in the order in which \<open>createOutputStructure\<close> makes them when none
  raises, and their execution in an environment, which stops at the first error (lemma
  \<open>createOutputStructure_calls\<close> below: this is the run in every environment).
\<close>

datatype call = Mkdir string | WriteFile string string

fun run_calls :: "'s outfs \<Rightarrow> call list \<Rightarrow> 's \<Rightarrow> error + 's" where
  "run_calls out [] s = Inr s"
| "run_calls out (Mkdir p # calls) s =
     (case mkdir out p s of Inl e \<Rightarrow> Inl e | Inr s' \<Rightarrow> run_calls out calls s')"
| "run_calls out (WriteFile p text # calls) s =
     (case writeFile out p text s of Inl e \<Rightarrow> Inl e | Inr s' \<Rightarrow> run_calls out calls s')"

fun wrappers_calls :: "(nat \<Rightarrow> string) \<Rightarrow> nat \<Rightarrow> component list \<Rightarrow> call list" where
  "wrappers_calls clock k [] = []"
| "wrappers_calls clock k (c # cs) =
     Mkdir (path_join OUTPUT_DIR (name c)) #
     WriteFile (path_join (path_join OUTPUT_DIR (name c)) ''index.tsx'')
       (generateReactWrapper (clock k) c) #
     wrappers_calls clock (Suc k) cs"

definition output_calls :: "(nat \<Rightarrow> string) \<Rightarrow> component list \<Rightarrow> call list" where
  "output_calls clock components =
     Mkdir OUTPUT_DIR # wrappers_calls clock 0 components @
     [WriteFile (path_join OUTPUT_DIR ''index.ts'')
        (indexContent (clock (length components)) (concat (map exports_of components)))]"

section \<open>The words of the specification\<close>

text \<open>
  For the comparison with the patterns of the program. A text starts with a class
  declaration of name \<open>n\<close> when it starts with \<open>export class\<close>, a space and \<open>n\<close>, where \<open>n\<close>
  is \<open>Md\<close> followed by one or more word characters, as many as there are. The first match
  of a text is the declaration at the first position that has one.

  A text starts with a quoted custom-element argument \<open>n\<close> when it starts with
  \<open>@customElement(\<close>, one of the three quote characters, \<open>n\<close>, one of the three quote
  characters and \<open>)\<close>, where \<open>n\<close> is not empty and has none of the three quote characters.
  Nothing stands between the parenthesis and the quote, and the two quote characters may
  differ.
\<close>

definition class_decl :: "string \<Rightarrow> string \<Rightarrow> bool" where
  "class_decl t n =
     (\<exists>w post. w \<noteq> [] \<and> list_all is_word w \<and> n = ''Md'' @ w \<and>
        t = ''export class '' @ n @ post \<and> takeWhile is_word post = [])"

definition tag_decl :: "string \<Rightarrow> string \<Rightarrow> bool" where
  "tag_decl t n =
     (\<exists>q1 q2 post. is_quote q1 \<and> is_quote q2 \<and> n \<noteq> [] \<and> list_all (\<lambda>c. \<not> is_quote c) n \<and>
        t = ''@customElement('' @ [q1] @ n @ [q2] @ '')'' @ post)"

text \<open>
  In the words of the specification the tag name is the first string-literal argument of
  the marker: a text starts with a string-literal argument \<open>n\<close> when it starts with
  \<open>@customElement(\<close>, white space if any, a quote character, \<open>n\<close> without that quote
  character, and the same quote character.
\<close>

definition string_literal_argument :: "string \<Rightarrow> string \<Rightarrow> bool" where
  "string_literal_argument t n =
     (\<exists>ws q post. list_all is_space ws \<and> is_quote q \<and> q \<notin> set n \<and>
        t = ''@customElement('' @ ws @ [q] @ n @ [q] @ post)"

definition first_match :: "(string \<Rightarrow> 'a \<Rightarrow> bool) \<Rightarrow> string \<Rightarrow> 'a \<Rightarrow> bool" where
  "first_match decl content x =
     (\<exists>pre t. content = pre @ t \<and> decl t x \<and> (\<forall>k<length pre. \<forall>y. \<not> decl (drop k content) y))"

text \<open>
  Two texts are the same but for the time stamp line when they are equal, or differ only
  in what follows \<open>This file was auto-generated on\<close> on one line.
\<close>

definition same_but_timestamp_line :: "string \<Rightarrow> string \<Rightarrow> bool" where
  "same_but_timestamp_line a b =
     (a = b \<or>
      (\<exists>pre post t1 t2. CHR 0x0A \<notin> set t1 \<and> CHR 0x0A \<notin> set t2 \<and>
         a = pre @ ''\<newline> * This file was auto-generated on '' @ t1 @ ''\<newline>'' @ post \<and>
         b = pre @ ''\<newline> * This file was auto-generated on '' @ t2 @ ''\<newline>'' @ post))"

text \<open>
  Two calls are the same but for the time stamp line when they are the same call on the same
  path, with texts that are the same but for the time stamp line.
\<close>

fun same_call :: "call \<Rightarrow> call \<Rightarrow> bool" where
  "same_call (Mkdir p) (Mkdir q) = (p = q)"
| "same_call (WriteFile p a) (WriteFile q b) = (p = q \<and> same_but_timestamp_line a b)"
| "same_call _ _ = False"

text \<open>The parentheses of a pattern: a match records the input once at each.\<close>

fun paren :: "item \<Rightarrow> bool" where
  "paren Open = True"
| "paren Close = True"
| "paren _ = False"

section \<open>A source tree for the examples\<close>

text \<open>
  The component directory \<open>list\<close> has three files with the text of a custom element
  \<open>md-list\<close> of class \<open>MdList\<close>, and an internal directory; \<open>labs\<close> has no source
  file; \<open>chips\<close> cannot be listed; in \<open>menu\<close> one of the two source files and the
  implementation file cannot be read.
\<close>

definition fs_list :: fs where
  "fs_list =
     \<lparr>readdir = (\<lambda>p.
        if p = ''temp-material-web''
          then Inr [Dirent ''.git'' True, Dirent ''docs'' True, Dirent ''list'' True,
                    Dirent ''labs'' True, Dirent ''chips'' True, Dirent ''menu'' True,
                    Dirent ''README.md'' False]
        else if p = ''temp-material-web/list''
          then Inr [Dirent ''list.tsv.ts'' False, Dirent ''contest.ts'' False,
                    Dirent ''demoted.ts'' False, Dirent ''internal'' True]
        else if p = ''temp-material-web/list/internal''
          then Inr [Dirent ''list-styles.ts'' False, Dirent ''list.ts'' False,
                    Dirent ''list-item.ts'' False]
        else if p = ''temp-material-web/labs'' then Inr [Dirent ''notes.md'' False]
        else if p = ''temp-material-web/menu''
          then Inr [Dirent ''menu.ts'' False, Dirent ''sub-menu.ts'' False,
                    Dirent ''internal'' True]
        else if p = ''temp-material-web/menu/internal''
          then Inr [Dirent ''menu-styles.ts'' False, Dirent ''menu.ts'' False]
        else if p = ''temp-material-web/chips'' then Inl EACCES
        else Inl ENOENT),
      readFile = (\<lambda>p.
        if p \<in> set [''temp-material-web/list/list.tsv.ts'', ''temp-material-web/list/contest.ts'',
                    ''temp-material-web/list/demoted.ts'', ''temp-material-web/menu/menu.ts'']
          then Inr (''@customElement('' @ [CHR 0x27] @ ''md-list'' @ [CHR 0x27] @
                    '')\<newline>export class MdList extends List {}'')
        else if p = ''temp-material-web/list/internal/list.ts''
          then Inr ''/**\<newline> * @fires change {Event} The selection changed. --bubbles\<newline> */\<newline>export class List extends LitElement {}''
        else if p = ''temp-material-web/list/internal/list-item.ts''
          then Inr ''/**\<newline> * @fires activate {Event} The item was activated.\<newline> */\<newline>export class ListItemEl extends LitElement {}''
        else if p = ''temp-material-web/menu/sub-menu.ts'' then Inl EACCES
        else Inl ENOENT)\<rparr>"

text \<open>The same tree with the two failing directories listed before \<open>list\<close>.\<close>

definition fs_faults :: fs where
  "fs_faults =
     fs_list\<lparr>readdir := \<lambda>p.
        if p = ''temp-material-web''
          then Inr [Dirent ''chips'' True, Dirent ''menu'' True, Dirent ''list'' True]
        else readdir fs_list p\<rparr>"

text \<open>The same tree with six annotations in the first candidate file of \<open>list/internal\<close>.\<close>

definition fs_events :: fs where
  "fs_events =
     fs_list\<lparr>readFile := \<lambda>p.
        if p = ''temp-material-web/list/internal/list.ts''
          then Inr ''/**\<newline> * @fires change {Event} The selection changed. --bubbles\<newline> * @fires input {InputEvent} Text was entered.\<newline> * @fires _closed {Event} Closed.\<newline> * @fires 2fa {Event} Second factor.\<newline> * @fires Opened {Event} Opened.\<newline> * @fires zoom {Event} Zoomed.\<newline> */\<newline>export class List extends LitElement {}''
        else readFile fs_list p\<rparr>"

text \<open>
  A tree of three components with documentation: in \<open>button\<close> a licence block, an import,
  the decorator, and the documented class; in \<open>switch\<close> a class with two documented
  properties; in \<open>chip\<close> the same with another decorator for the first property.
\<close>

definition fs_docs :: fs where
  "fs_docs =
     \<lparr>readdir = (\<lambda>p.
        if p = ''temp-material-web''
          then Inr [Dirent ''button'' True, Dirent ''switch'' True, Dirent ''chip'' True]
        else if p = ''temp-material-web/button'' then Inr [Dirent ''button.ts'' False]
        else if p = ''temp-material-web/switch'' then Inr [Dirent ''switch.ts'' False]
        else if p = ''temp-material-web/chip'' then Inr [Dirent ''chip.ts'' False]
        else Inl ENOENT),
      readFile = (\<lambda>p.
        if p = ''temp-material-web/button/button.ts''
          then Inr ''/**\<newline> * @license\<newline> * Copyright 2021 Google LLC\<newline> */\<newline>import {Button} from './internal/button.js';\<newline>@customElement('md-button')\<newline>/**\<newline> * A button.\<newline> */\<newline>export class MdButton extends Button {}\<newline>''
        else if p = ''temp-material-web/switch/switch.ts''
          then Inr ''@customElement('md-switch')\<newline>export class MdSwitch extends LitElement {\<newline>  /**\<newline>   * Whether the switch is disabled.\<newline>   */\<newline>  @property({type: Boolean}) disabled = false;\<newline>\<newline>  /**\<newline>   * Whether the switch is selected.\<newline>   */\<newline>  @property({type: Boolean}) selected = false;\<newline>}\<newline>''
        else if p = ''temp-material-web/chip/chip.ts''
          then Inr ''@customElement('md-chip')\<newline>export class MdChip extends LitElement {\<newline>  /** Whether the chip is disabled. */\<newline>  @property({attribute:false})\<newline>  disabled = false;\<newline>\<newline>  /** Whether the chip is selected. */\<newline>  @property() selected = false;\<newline>}\<newline>''
        else Inl ENOENT)\<rparr>"

text \<open>
  A tree with one directory of five candidate files: a class without the decorator, two
  components, one with double quotes, a decorator with white space inside its parentheses,
  and a class whose name does not start with \<open>Md\<close>.
\<close>

definition fs_tags :: fs where
  "fs_tags =
     \<lparr>readdir = (\<lambda>p.
        if p = ''temp-material-web'' then Inr [Dirent ''tabs'' True]
        else if p = ''temp-material-web/tabs''
          then Inr [Dirent ''tab.ts'' False, Dirent ''tabs.ts'' False, Dirent ''spaced.ts'' False,
                    Dirent ''harness.ts'' False, Dirent ''primary-tab.ts'' False,
                    Dirent ''internal'' True, Dirent ''tabs.scss'' False]
        else Inl ENOENT),
      readFile = (\<lambda>p.
        if p = ''temp-material-web/tabs/tab.ts''
          then Inr ''export class MdTab extends Tab {}''
        else if p = ''temp-material-web/tabs/tabs.ts''
          then Inr ''@customElement('md-tabs')\<newline>export class MdTabs extends Tabs {}''
        else if p = ''temp-material-web/tabs/spaced.ts''
          then Inr ''@customElement( 'md-spaced' )\<newline>export class MdSpaced extends Spaced {}''
        else if p = ''temp-material-web/tabs/harness.ts''
          then Inr ''// for elements declared with @customElement\<newline>export class TabHarness extends Harness {}''
        else if p = ''temp-material-web/tabs/primary-tab.ts''
          then Inr (''@customElement('' @ [CHR 0x22] @ ''md-primary-tab'' @ [CHR 0x22] @
                    '')\<newline>export class MdPrimaryTab extends PrimaryTab {}'')
        else Inl ENOENT)\<rparr>"

text \<open>A tree whose one component directory has the name of the main index.\<close>

definition fs_index :: fs where
  "fs_index =
     \<lparr>readdir = (\<lambda>p.
        if p = ''temp-material-web'' then Inr [Dirent ''index.ts'' True]
        else if p = ''temp-material-web/index.ts'' then Inr [Dirent ''list.ts'' False]
        else Inl ENOENT),
      readFile = (\<lambda>p.
        if p = ''temp-material-web/index.ts/list.ts''
          then Inr ''@customElement('md-list')\<newline>export class MdList extends List {}''
        else Inl ENOENT)\<rparr>"

section \<open>An output tree for the examples\<close>

text \<open>
  The tree is the list of its paths, each a directory or a file with its text.
  \<open>mkdir\<close> makes the directory and those above it, and raises when one of them is a file;
  \<open>writeFile\<close> raises on a directory and when the directory above is missing or a file.
\<close>

datatype onode = ODir | OFile string

type_synonym tree = "(string \<times> onode) list"

fun prefixes_from :: "string \<Rightarrow> string \<Rightarrow> string list" where
  "prefixes_from acc [] = [acc]"
| "prefixes_from acc (c # cs) =
     (if c = CHR ''/'' then acc # prefixes_from (acc @ [c]) cs else prefixes_from (acc @ [c]) cs)"

definition path_prefixes :: "string \<Rightarrow> string list" where
  "path_prefixes p = prefixes_from [] p"

definition is_file :: "tree \<Rightarrow> string \<Rightarrow> bool" where
  "is_file t p = (case map_of t p of Some (OFile text) \<Rightarrow> True | _ \<Rightarrow> False)"

definition is_dir :: "tree \<Rightarrow> string \<Rightarrow> bool" where
  "is_dir t p = (case map_of t p of Some ODir \<Rightarrow> True | _ \<Rightarrow> False)"

definition tree_out :: "tree outfs" where
  "tree_out =
     \<lparr>mkdir = (\<lambda>p t.
        if list_ex (is_file t) (path_prefixes p)
          then Inl (if is_file t p then EEXIST else ENOTDIR)
        else Inr (fold (\<lambda>q. AList.update q ODir) (path_prefixes p) t)),
      writeFile = (\<lambda>p text t.
        if is_dir t p then Inl EISDIR
        else if list_all (is_dir t) (butlast (path_prefixes p))
          then Inr (AList.update p (OFile text) t)
        else if list_ex (is_file t) (butlast (path_prefixes p)) then Inl ENOTDIR
        else Inl ENOENT)\<rparr>"

text \<open>An output environment in which every call succeeds and is recorded.\<close>

definition log_out :: "call list outfs" where
  "log_out = \<lparr>mkdir = (\<lambda>p s. Inr (s @ [Mkdir p])),
              writeFile = (\<lambda>p text s. Inr (s @ [WriteFile p text]))\<rparr>"

section \<open>Properties of the matcher\<close>

lemma rmatch_Lit: "rmatch (Lit l # p) s = Some r \<longleftrightarrow> (\<exists>t. s = l @ t \<and> rmatch p t = Some r)"
  by (auto simp: prefix_def)

lemma rmatch_Open: "rmatch (Open # p) s = Some r \<longleftrightarrow> (\<exists>ms e. r = (s # ms, e) \<and> rmatch p s = Some (ms, e))"
  by (auto split: option.splits)

lemma rmatch_Close: "rmatch (Close # p) s = Some r \<longleftrightarrow> (\<exists>ms e. r = (s # ms, e) \<and> rmatch p s = Some (ms, e))"
  by (auto split: option.splits)

lemma rmatch_One: "rmatch (One c # p) s = Some r \<longleftrightarrow> (\<exists>x xs. s = x # xs \<and> c x \<and> rmatch p xs = Some r)"
  by (cases s) auto

lemma rmatch_Star_sound:
  "rmatch (Star c # p) s = Some r \<Longrightarrow> \<exists>w t. s = w @ t \<and> list_all c w \<and> rmatch p t = Some r"
proof (induction s)
  case Nil
  then show ?case by simp
next
  case (Cons x xs)
  show ?case
  proof (cases "c x \<and> rmatch (Star c # p) xs \<noteq> None")
    case True
    with Cons.prems have "rmatch (Star c # p) xs = Some r" by auto
    from Cons.IH [OF this] obtain w t where "xs = w @ t" "list_all c w" "rmatch p t = Some r"
      by blast
    with True have "x # xs = (x # w) @ t \<and> list_all c (x # w) \<and> rmatch p t = Some r" by simp
    then show ?thesis by blast
  next
    case False
    with Cons.prems have "rmatch p (x # xs) = Some r" by (auto split: if_splits option.splits)
    then have "x # xs = [] @ (x # xs) \<and> list_all c [] \<and> rmatch p (x # xs) = Some r" by simp
    then show ?thesis by blast
  qed
qed

lemma rmatch_Plus_sound:
  assumes "rmatch (Plus c # p) s = Some r"
  shows "\<exists>w t. s = w @ t \<and> w \<noteq> [] \<and> list_all c w \<and> rmatch p t = Some r"
proof (cases s)
  case Nil
  with assms show ?thesis by simp
next
  case (Cons x xs)
  with assms have cx: "c x" and "rmatch (Star c # p) xs = Some r" by (auto split: if_splits)
  from rmatch_Star_sound [OF this(2)] obtain w t where "xs = w @ t" "list_all c w" "rmatch p t = Some r"
    by blast
  with Cons cx have "s = (x # w) @ t \<and> x # w \<noteq> [] \<and> list_all c (x # w) \<and> rmatch p t = Some r" by simp
  then show ?thesis by blast
qed

lemma rmatch_LazyStar_sound:
  "rmatch (LazyStar c # p) s = Some r \<Longrightarrow> \<exists>w t. s = w @ t \<and> list_all c w \<and> rmatch p t = Some r"
proof (induction s)
  case Nil
  then show ?case by simp
next
  case (Cons x xs)
  show ?case
  proof (cases "rmatch p (x # xs)")
    case (Some m)
    with Cons.prems have "x # xs = [] @ (x # xs) \<and> list_all c [] \<and> rmatch p (x # xs) = Some r" by simp
    then show ?thesis by blast
  next
    case None
    with Cons.prems have cx: "c x" and "rmatch (LazyStar c # p) xs = Some r" by (auto split: if_splits)
    from Cons.IH [OF this(2)] obtain w t where "xs = w @ t" "list_all c w" "rmatch p t = Some r"
      by blast
    with cx have "x # xs = (x # w) @ t \<and> list_all c (x # w) \<and> rmatch p t = Some r" by simp
    then show ?thesis by blast
  qed
qed

lemma rmatch_marks: "rmatch p s = Some (ms, e) \<Longrightarrow> length ms = length (filter paren p)"
proof (induction p s arbitrary: ms e rule: rmatch.induct)
  case (2 l p s)
  then show ?case by (auto split: if_splits)
next
  case (4 c p x xs)
  then show ?case by (auto split: if_splits)
next
  case (6 c p x xs)
  then show ?case by (auto split: if_splits option.splits)
next
  case (8 c p x xs)
  then show ?case by (auto split: if_splits option.splits)
next
  case (10 c p x xs)
  then show ?case by (auto split: if_splits)
next
  case (12 c p x xs)
  then show ?case by (auto split: if_splits option.splits)
qed (auto split: option.splits)

lemma length_groups: "length (groups ms) = length ms div 2"
  by (induction ms rule: groups.induct) auto

lemma search_rmatch: "search p s = Some (m, ms, e) \<Longrightarrow> rmatch p m = Some (ms, e)"
  by (induction s) (auto split: option.splits)

lemma search_first:
  "search p s = Some (m, ms, e) \<Longrightarrow>
     \<exists>pre. s = pre @ m \<and> (\<forall>k < length pre. rmatch p (drop k s) = None)"
proof (induction s)
  case Nil
  then show ?case by (auto split: option.splits)
next
  case (Cons x xs)
  show ?case
  proof (cases "rmatch p (x # xs)")
    case None
    with Cons.prems have "search p xs = Some (m, ms, e)" by simp
    from Cons.IH [OF this] obtain pre where pre: "xs = pre @ m" "\<forall>k < length pre. rmatch p (drop k xs) = None"
      by blast
    have "\<forall>k < length (x # pre). rmatch p (drop k (x # xs)) = None"
    proof (intro allI impI)
      fix k assume "k < length (x # pre)"
      then show "rmatch p (drop k (x # xs)) = None"
        using None pre(2) by (cases k) auto
    qed
    with pre(1) have "x # xs = (x # pre) @ m \<and> (\<forall>k < length (x # pre). rmatch p (drop k (x # xs)) = None)"
      by simp
    then show ?thesis by blast
  next
    case (Some r)
    with Cons.prems have "m = x # xs" by (auto split: prod.splits)
    then have "x # xs = [] @ m \<and> (\<forall>k < length ([]::string). rmatch p (drop k (x # xs)) = None)" by simp
    then show ?thesis by blast
  qed
qed

lemma search_None: "search p s = None \<Longrightarrow> rmatch p (drop k s) = None"
proof (induction s arbitrary: k)
  case Nil
  then show ?case by (auto split: option.splits)
next
  case (Cons x xs)
  then show ?case by (cases k) (auto split: option.splits)
qed

lemma matchAll_mem:
  "m \<in> set (matchAll s p) \<Longrightarrow> \<exists>t ms e. rmatch p t = Some (ms, e) \<and> m = match_array (t, ms, e)"
proof (induction s p rule: matchAll.induct)
  case (1 s p)
  show ?case
  proof (cases "search p s")
    case None
    with "1.prems" show ?thesis by (subst (asm) matchAll.simps) simp
  next
    case (Some r)
    obtain t ms e where r: "r = (t, ms, e)" by (cases r) auto
    from Some r have rm: "rmatch p t = Some (ms, e)" by (simp add: search_rmatch)
    from "1.prems" Some r have
      "m = match_array (t, ms, e) \<or>
       m \<in> set (if length e = length t then (case e of [] \<Rightarrow> [] | _ # e' \<Rightarrow> matchAll e' p) else matchAll e p)"
      by (subst (asm) matchAll.simps) simp
    then show ?thesis
    proof
      assume "m = match_array (t, ms, e)"
      with rm show ?thesis by blast
    next
      assume mem: "m \<in> set (if length e = length t then (case e of [] \<Rightarrow> [] | _ # e' \<Rightarrow> matchAll e' p) else matchAll e p)"
      show ?thesis
      proof (cases "length e = length t")
        case True
        with mem obtain c e' where e: "e = c # e'" and "m \<in> set (matchAll e' p)"
          by (cases e) auto
        with "1.IH"(1) [OF Some _ _ True e] r show ?thesis by simp
      next
        case False
        with mem have "m \<in> set (matchAll e p)" by simp
        with "1.IH"(2) [OF Some _ _ False] r show ?thesis by simp
      qed
    qed
  qed
qed

section \<open>Import paths\<close>

text \<open>
  Claim C8: the import path of a variant is \<open>@material/web/<directory>/<file name without
  its extension>.js\<close>, for every candidate file name. \<open>file.replace('.ts', '.js')\<close> replaces
  the first \<open>.ts\<close> of the name, not the extension: for \<open>list.tsv.ts\<close> the path ends in
  \<open>list.jsv.ts\<close>.
\<close>

theorem importPath_first_occurrence:
  "candidate ''list.tsv.ts'' \<and>
   map importPath (findAllComponentVariants fs_list ''temp-material-web/list'' ''list'') =
     [''@material/web/list/list.jsv.ts'']"
  by code_simp

text \<open>
  The path has the form \<open>@material/web/<directory>/<base>.js\<close> when \<open>.ts\<close> stands in the
  name at its end only.
\<close>

lemma replace_suffix:
  "sub \<noteq> [] \<Longrightarrow> \<not> sublist sub (butlast (base @ sub)) \<Longrightarrow>
   replace sub rep (base @ sub) = base @ rep"
proof (induction base)
  case Nil
  then show ?case by (cases sub) auto
next
  case (Cons b bs)
  have bl: "butlast ((b # bs) @ sub) = b # butlast (bs @ sub)"
    using Cons.prems(1) by simp
  have np: "\<not> prefix sub ((b # bs) @ sub)"
  proof
    assume "prefix sub ((b # bs) @ sub)"
    then obtain r where r: "(b # bs) @ sub = sub @ r" by (auto simp: prefix_def)
    then have "length r = Suc (length bs)" 
      by (metis add_diff_cancel_right' length_Cons length_append add.commute)
    then have "r \<noteq> []" by auto
    with r have "butlast ((b # bs) @ sub) = sub @ butlast r"
      by (simp add: butlast_append)
    then have "sublist sub (butlast ((b # bs) @ sub))" by (simp add: sublist_def) (metis append_Nil)
    with Cons.prems(2) show False by blast
  qed
  have "\<not> sublist sub (butlast (bs @ sub))"
    using Cons.prems(2) unfolding bl by (auto simp: sublist_Cons_right)
  from Cons.IH [OF Cons.prems(1) this] np show ?case by simp
qed

lemma importPath_single_extension:
  assumes "visit_file fs cp cn (base @ ''.ts'') = Inr (Some v)"
    and "\<not> includes_str (base @ ''.t'') ''.ts''"
  shows "importPath v = ''@material/web/'' @ cn @ ''/'' @ base @ ''.js''"
proof -
  have "butlast (base @ ''.ts'') = base @ ''.t''" by (simp add: butlast_append)
  with assms(2) have "replace ''.ts'' ''.js'' (base @ ''.ts'') = base @ ''.js''"
    by (intro replace_suffix) (simp_all add: includes_str_def)
  with assms(1) show ?thesis
    by (auto simp: visit_file_def split: if_splits sum.splits option.splits prod.splits)
qed

section \<open>Candidate files\<close>

lemma variants_loop_skip:
  "visit_file fs cp cn file = Inr None \<Longrightarrow>
   variants_loop fs cp cn (pre @ file # post) = variants_loop fs cp cn (pre @ post)"
  by (induction pre) (auto split: sum.splits)

text \<open>
  Claim C10: the selection of the candidate files is by substring. A file gives a variant
  only if its name ends in \<open>.ts\<close> and has none of \<open>internal\<close>, \<open>test\<close>, \<open>demo\<close> anywhere in
  it; a file whose name has one of them is not read, gives no variant and no error, whatever
  its text, and the list of variants is the one of the directory without it.
\<close>

theorem candidate_by_substring:
  "(visit_file fs cp cn file = Inr (Some v) \<longrightarrow>
      endsWith file ''.ts'' \<and> \<not> includes_str file ''internal'' \<and> \<not> includes_str file ''test'' \<and>
      \<not> includes_str file ''demo'') \<and>
   (\<not> endsWith file ''.ts'' \<or> includes_str file ''internal'' \<or> includes_str file ''test'' \<or>
    includes_str file ''demo'' \<longrightarrow>
      visit_file fs cp cn file = Inr None \<and>
      variants_loop fs cp cn (pre @ file # post) = variants_loop fs cp cn (pre @ post))"
proof -
  have skip: "visit_file fs cp cn file = Inr None" if "\<not> candidate file"
    using that by (simp add: visit_file_def)
  have "candidate file" if "visit_file fs cp cn file = Inr (Some v)"
    using that skip by auto
  moreover have "visit_file fs cp cn file = Inr None \<and>
      variants_loop fs cp cn (pre @ file # post) = variants_loop fs cp cn (pre @ post)"
    if "\<not> candidate file"
    using skip [OF that] variants_loop_skip by blast
  ultimately show ?thesis
    unfolding candidate_def by blast
qed

theorem candidate_by_substring_witness:
  "includes_str ''contest.ts'' ''test'' \<and> includes_str ''demoted.ts'' ''demo'' \<and>
   visit_file fs_list ''temp-material-web/list'' ''list'' ''contest.ts'' = Inr None \<and>
   visit_file fs_list ''temp-material-web/list'' ''list'' ''demoted.ts'' = Inr None \<and>
   variants_loop fs_list ''temp-material-web/list'' ''list''
     ([''list.tsv.ts''] @ ''contest.ts'' # [''demoted.ts'']) =
   variants_loop fs_list ''temp-material-web/list'' ''list'' ([''list.tsv.ts''] @ [''demoted.ts'']) \<and>
   (\<exists>v. visit_file fs_list ''temp-material-web/list'' ''list'' ''list.tsv.ts'' = Inr (Some v)) \<and>
   endsWith ''list.tsv.ts'' ''.ts'' \<and> \<not> includes_str ''list.tsv.ts'' ''test''"
proof -
  have h1: "includes_str ''contest.ts'' ''test''" by code_simp
  have h2: "includes_str ''demoted.ts'' ''demo''" by code_simp
  have "map_sum id (map_option className)
          (visit_file fs_list ''temp-material-web/list'' ''list'' ''list.tsv.ts'') =
        Inr (Some ''MdList'')"
    by code_simp
  then have h3: "\<exists>v. visit_file fs_list ''temp-material-web/list'' ''list'' ''list.tsv.ts'' = Inr (Some v)"
    by (cases "visit_file fs_list ''temp-material-web/list'' ''list'' ''list.tsv.ts''") auto
  then obtain v where
    v: "visit_file fs_list ''temp-material-web/list'' ''list'' ''list.tsv.ts'' = Inr (Some v)"
    by blast
  show ?thesis
    using h1 h2 h3 v
      candidate_by_substring [of fs_list "''temp-material-web/list''" "''list''" "''contest.ts''"
        undefined "[''list.tsv.ts'']" "[''demoted.ts'']"]
      candidate_by_substring [of fs_list "''temp-material-web/list''" "''list''" "''demoted.ts''"
        undefined "[]" "[]"]
      candidate_by_substring [of fs_list "''temp-material-web/list''" "''list''" "''list.tsv.ts''"
        v "[]" "[]"]
    by blast
qed

section \<open>Directories, files and failures\<close>

lemma components_loop_eq:
  "components_loop fs path es =
     map (\<lambda>e. \<lparr>name = dirent_name e,
                variants = findAllComponentVariants fs (path_join path (dirent_name e)) (dirent_name e)\<rparr>)
       (filter (\<lambda>e. component_dir e \<and>
                     findAllComponentVariants fs (path_join path (dirent_name e)) (dirent_name e) \<noteq> [])
          es)"
  by (induction es) (auto simp: Let_def)

lemma variants_loop_unreadable:
  "file \<in> set files \<Longrightarrow> candidate file \<Longrightarrow> readFile fs (path_join cp file) = Inl e \<Longrightarrow>
   \<exists>e'. variants_loop fs cp cn files = Inl e'"
proof (induction files)
  case Nil
  then show ?case by simp
next
  case (Cons f fs')
  show ?case
  proof (cases "f = file")
    case True
    with Cons.prems have "visit_file fs cp cn f = Inl e" by (simp add: visit_file_def)
    then show ?thesis by simp
  next
    case False
    with Cons obtain e' where "variants_loop fs cp cn fs' = Inl e'" by auto
    then show ?thesis by (simp split: sum.splits)
  qed
qed

lemma internal_loop_first:
  "\<forall>f\<in>set pre. \<not> internal_candidate f \<Longrightarrow> internal_candidate file \<Longrightarrow>
   internal_loop fs ip (pre @ file # post) =
     (case readFile fs (path_join ip file) of
        Inl e \<Rightarrow> Inl e
      | Inr content \<Rightarrow> events_loop (matchAll content fires_re) [])"
  by (induction pre) auto

section \<open>The event mapping\<close>

lemma fires_group:
  assumes "rmatch fires_re t = Some (ms, e)"
  shows "\<exists>n. at (match_array (t, ms, e)) 1 = Some n \<and> n \<noteq> [] \<and> list_all is_word n"
proof -
  let ?p3 = "[Plus is_space, Lit ''{'', Star (\<lambda>c. c \<noteq> CHR ''}''), Lit ''}'', Star is_space,
      Open, Star (\<lambda>c. c \<noteq> CHR ''@'' \<and> c \<noteq> CHR 0x0A), Close]"
  from assms obtain t1 where "rmatch (Plus is_space # Open # Plus is_word # Close # ?p3) t1 = Some (ms, e)"
    unfolding fires_re_def rmatch_Lit by auto
  from rmatch_Plus_sound [OF this] obtain t2 where
    "rmatch (Open # Plus is_word # Close # ?p3) t2 = Some (ms, e)" by blast
  then obtain ms1 where ms: "ms = t2 # ms1" and "rmatch (Plus is_word # Close # ?p3) t2 = Some (ms1, e)"
    unfolding rmatch_Open by auto
  from rmatch_Plus_sound [OF this(2)] obtain w t3 where
    w: "t2 = w @ t3" "w \<noteq> []" "list_all is_word w" and "rmatch (Close # ?p3) t3 = Some (ms1, e)"
    by blast
  then obtain ms2 where "ms1 = t3 # ms2"
    unfolding rmatch_Close by auto
  with ms w have "at (match_array (t, ms, e)) 1 = Some w"
    by (simp add: at_def match_array_def)
  with w show ?thesis by blast
qed

lemma events_loop_names:
  "map (\<lambda>m. at m 1) ms = map Some names \<Longrightarrow>
   events_loop ms ev = Inr (fold (\<lambda>n. obj_set (reactEventName n) n) names ev)"
proof (induction ms arbitrary: names ev)
  case Nil
  then show ?case by simp
next
  case (Cons m ms)
  then obtain n ns where "names = n # ns" "at m 1 = Some n" "map (\<lambda>m. at m 1) ms = map Some ns"
    by (cases names) auto
  with Cons.IH show ?case by simp
qed

lemma options_list:
  "\<forall>x\<in>set xs. \<exists>n. f x = Some n \<and> P n \<Longrightarrow>
   \<exists>names. map f xs = map Some names \<and> (\<forall>n\<in>set names. P n)"
proof (induction xs)
  case Nil
  then show ?case by simp
next
  case (Cons x xs)
  then obtain names where names: "map f xs = map Some names" "\<forall>n\<in>set names. P n" by auto
  from Cons.prems obtain n where "f x = Some n" "P n" by auto
  with names have "map f (x # xs) = map Some (n # names) \<and> (\<forall>n\<in>set (n # names). P n)" by simp
  then show ?case by blast
qed

lemma fires_names:
  "\<exists>names. map (\<lambda>m. at m 1) (matchAll content fires_re) = map Some names \<and>
     (\<forall>n\<in>set names. n \<noteq> [] \<and> list_all is_word n)"
proof (rule options_list, rule ballI)
  fix m assume "m \<in> set (matchAll content fires_re)"
  from matchAll_mem [OF this] obtain t ms e where
    "rmatch fires_re t = Some (ms, e)" "m = match_array (t, ms, e)" by blast
  with fires_group show "\<exists>n. at m 1 = Some n \<and> n \<noteq> [] \<and> list_all is_word n" by blast
qed

lemma reactEventName_not_proto: "reactEventName n \<noteq> ''__proto__''"
  by (simp add: reactEventName_def)

lemma obj_set_event: "obj_set (reactEventName n) v = AList.update (reactEventName n) v"
  by (rule ext) (simp add: obj_set_def reactEventName_not_proto)

lemma fold_update_distinct:
  "distinct (map fst al) \<Longrightarrow> distinct (map fst (fold (\<lambda>n. AList.update (f n) n) names al))"
  by (induction names arbitrary: al) (auto simp: distinct_update)

lemma fold_update_other:
  "k \<notin> f ` set names \<Longrightarrow> map_of (fold (\<lambda>n. AList.update (f n) n) names al) k = map_of al k"
  by (induction names arbitrary: al) (auto simp: update_conv')

lemma fold_update_lookup:
  "inj_on f (set names) \<Longrightarrow> n \<in> set names \<Longrightarrow>
   map_of (fold (\<lambda>n. AList.update (f n) n) names al) (f n) = Some n"
proof (induction names arbitrary: al)
  case Nil
  then show ?case by simp
next
  case (Cons x xs)
  show ?case
  proof (cases "n \<in> set xs")
    case True
    from Cons.prems(1) have "inj_on f (set xs)" by (auto simp: inj_on_def)
    from Cons.IH [OF this True] show ?thesis by simp
  next
    case False
    with Cons.prems have nx: "n = x" and "f x \<notin> f ` set xs" by (auto simp: inj_on_def)
    then show ?thesis by (simp add: fold_update_other update_conv')
  qed
qed

lemma reactEventName_eq:
  "reactEventName a = reactEventName b \<longleftrightarrow>
     toUpperCase (charAt a 0) = toUpperCase (charAt b 0) \<and> slice a 1 = slice b 1"
proof
  assume eq: "reactEventName a = reactEventName b"
  then have "length (reactEventName a) = length (reactEventName b)" by simp
  then have "length a = length b"
    by (cases a; cases b) (auto simp: reactEventName_def toUpperCase_def charAt_def slice_def)
  then have "length (toUpperCase (charAt a 0)) = length (toUpperCase (charAt b 0))"
    by (simp add: toUpperCase_def charAt_def)
  with eq show "toUpperCase (charAt a 0) = toUpperCase (charAt b 0) \<and> slice a 1 = slice b 1"
    by (simp add: reactEventName_def)
next
  assume "toUpperCase (charAt a 0) = toUpperCase (charAt b 0) \<and> slice a 1 = slice b 1"
  then show "reactEventName a = reactEventName b" by (simp add: reactEventName_def)
qed

text \<open>
  Claim C5: the keys of the event mapping are unique, and two distinct event names give two
  distinct keys, so that no entry is lost. The names \<open>change\<close> and \<open>Change\<close> give the same
  key \<open>onChange\<close>: of two such annotations one entry is left, with the later name.
\<close>

theorem handler_key_collision:
  "''change'' \<noteq> ''Change'' \<and> reactEventName ''change'' = reactEventName ''Change'' \<and>
   events_loop
     (matchAll '' * @fires change {Event} The value changed\<newline> * @fires Change {Event} The case changed'' fires_re) [] =
     Inr [(''onChange'', ''Change'')]"
  by code_simp

text \<open>
  Claim C5 as amended: every key occurs once in the mapping; two event names give the same
  key exactly when they agree after their first character and their first characters are
  equal once in upper case; when no two of the scanned names give the same key, every name
  has its entry.
\<close>

theorem handler_keys_up_to_first_letter_case:
  "(reactEventName a = reactEventName b \<longleftrightarrow>
      toUpperCase (charAt a 0) = toUpperCase (charAt b 0) \<and> slice a 1 = slice b 1) \<and>
   (map (\<lambda>m. at m 1) ms = map Some names \<longrightarrow>
      (\<exists>ev. events_loop ms [] = Inr ev \<and> distinct (map fst ev) \<and>
         ((\<forall>x\<in>set names. \<forall>y\<in>set names. reactEventName x = reactEventName y \<longrightarrow> x = y) \<longrightarrow>
          (\<forall>n\<in>set names. map_of ev (reactEventName n) = Some n))))"
proof (intro conjI impI)
  show "reactEventName a = reactEventName b \<longleftrightarrow>
      toUpperCase (charAt a 0) = toUpperCase (charAt b 0) \<and> slice a 1 = slice b 1"
    by (rule reactEventName_eq)
next
  assume m: "map (\<lambda>m. at m 1) ms = map Some names"
  let ?ev = "fold (\<lambda>n. AList.update (reactEventName n) n) names []"
  have 1: "events_loop ms [] = Inr ?ev"
    using events_loop_names [OF m] by (simp add: obj_set_event)
  have 2: "distinct (map fst ?ev)" by (simp add: fold_update_distinct)
  have 3: "\<forall>n\<in>set names. map_of ?ev (reactEventName n) = Some n"
    if "\<forall>x\<in>set names. \<forall>y\<in>set names. reactEventName x = reactEventName y \<longrightarrow> x = y"
    using that by (auto simp: inj_on_def intro!: fold_update_lookup)
  from 1 2 3 show "\<exists>ev. events_loop ms [] = Inr ev \<and> distinct (map fst ev) \<and>
         ((\<forall>x\<in>set names. \<forall>y\<in>set names. reactEventName x = reactEventName y \<longrightarrow> x = y) \<longrightarrow>
          (\<forall>n\<in>set names. map_of ev (reactEventName n) = Some n))"
    by blast
qed

theorem handler_keys_up_to_first_letter_case_witness:
  "map (\<lambda>m. at m 1)
     (matchAll '' * @fires change {Event} The value changed\<newline> * @fires input {InputEvent} The text changed'' fires_re) =
     map Some [''change'', ''input''] \<and>
   reactEventName ''change'' \<noteq> reactEventName ''input'' \<and>
   (\<exists>ev. events_loop
      (matchAll '' * @fires change {Event} The value changed\<newline> * @fires input {InputEvent} The text changed'' fires_re) [] =
      Inr ev \<and> distinct (map fst ev) \<and>
      map_of ev (reactEventName ''change'') = Some ''change'' \<and>
      map_of ev (reactEventName ''input'') = Some ''input'')"
proof -
  let ?ms = "matchAll '' * @fires change {Event} The value changed\<newline> * @fires input {InputEvent} The text changed'' fires_re"
  have h1: "map (\<lambda>m. at m 1) ?ms = map Some [''change'', ''input'']" by code_simp
  have h2: "reactEventName ''change'' \<noteq> reactEventName ''input''" by code_simp
  then have h3: "\<forall>x\<in>set [''change'', ''input'']. \<forall>y\<in>set [''change'', ''input''].
      reactEventName x = reactEventName y \<longrightarrow> x = y"
    by auto
  from handler_keys_up_to_first_letter_case
      [of "''change''" "''input''" ?ms "[''change'', ''input'']"] h1 h3
  obtain ev where "events_loop ?ms [] = Inr ev" "distinct (map fst ev)"
    "\<forall>n\<in>set [''change'', ''input'']. map_of ev (reactEventName n) = Some n"
    by blast
  then have "\<exists>ev. events_loop ?ms [] = Inr ev \<and> distinct (map fst ev) \<and>
      map_of ev (reactEventName ''change'') = Some ''change'' \<and>
      map_of ev (reactEventName ''input'') = Some ''input''"
    by auto
  with h1 h2 show ?thesis by blast
qed

section \<open>Class names and tag names\<close>

lemma rmatch_Star_Close: "rmatch [Star c, Close] s = Some ([dropWhile c s], dropWhile c s)"
  by (induction s) auto

lemma rmatch_Star_stop:
  assumes "\<And>x. d x \<Longrightarrow> \<not> c x"
  shows "rmatch (Star c # Close # One d # p) s = rmatch (Close # One d # p) (dropWhile c s)"
proof (induction s)
  case Nil
  then show ?case by simp
next
  case (Cons x xs)
  show ?case
  proof (cases "c x")
    case True
    then have "\<not> d x" using assms by blast
    then have "rmatch (Close # One d # p) (x # xs) = None" by simp
    with True Cons show ?thesis by (simp split: option.splits)
  next
    case False
    then show ?thesis by simp
  qed
qed

lemma takeWhile_dropWhile_Nil: "takeWhile P (dropWhile P xs) = []"
  by (induction xs) auto

lemma dropWhile_all_then: "list_all P w \<Longrightarrow> takeWhile P e = [] \<Longrightarrow> dropWhile P (w @ e) = e"
  by (induction w) (auto simp: takeWhile_eq_Nil_iff dropWhile_eq_self_iff)

lemma className_rmatch:
  "rmatch className_re t = Some (ms, e) \<longleftrightarrow>
     (\<exists>w. w \<noteq> [] \<and> list_all is_word w \<and> t = ''export class Md'' @ w @ e \<and>
          takeWhile is_word e = [] \<and> ms = [''Md'' @ w @ e, e])"
proof
  assume "rmatch className_re t = Some (ms, e)"
  then obtain t1 where t: "t = ''export class '' @ t1"
      and "rmatch [Open, Lit ''Md'', Plus is_word, Close] t1 = Some (ms, e)"
    unfolding className_re_def rmatch_Lit by auto
  then obtain ms1 where ms: "ms = t1 # ms1"
      and "rmatch [Lit ''Md'', Plus is_word, Close] t1 = Some (ms1, e)"
    unfolding rmatch_Open by auto
  then obtain t2 where t1: "t1 = ''Md'' @ t2" and pl: "rmatch [Plus is_word, Close] t2 = Some (ms1, e)"
    unfolding rmatch_Lit by auto
  from pl obtain x xs where t2: "t2 = x # xs" "is_word x"
      and "rmatch [Star is_word, Close] xs = Some (ms1, e)"
    by (cases t2) (auto split: if_splits)
  then have e: "e = dropWhile is_word xs" "ms1 = [e]"
    by (auto simp: rmatch_Star_Close)
  let ?w = "x # takeWhile is_word xs"
  have "?w \<noteq> []" "list_all is_word ?w" "t2 = ?w @ e" "takeWhile is_word e = []"
    using t2 e by (simp_all add: list_all_iff takeWhile_dropWhile_Nil) (auto dest: set_takeWhileD)
  with t t1 ms e(2) show "\<exists>w. w \<noteq> [] \<and> list_all is_word w \<and> t = ''export class Md'' @ w @ e \<and>
          takeWhile is_word e = [] \<and> ms = [''Md'' @ w @ e, e]"
    by auto
next
  assume "\<exists>w. w \<noteq> [] \<and> list_all is_word w \<and> t = ''export class Md'' @ w @ e \<and>
          takeWhile is_word e = [] \<and> ms = [''Md'' @ w @ e, e]"
  then obtain w where w: "w \<noteq> []" "list_all is_word w" "t = ''export class Md'' @ w @ e"
      "takeWhile is_word e = []" "ms = [''Md'' @ w @ e, e]"
    by blast
  from w(1) obtain x xs where x: "w = x # xs" by (cases w) auto
  with w(2) have "is_word x" "list_all is_word xs" by simp_all
  with w(4) have "rmatch [Plus is_word, Close] (w @ e) = Some ([e], e)"
    using x by (simp add: rmatch_Star_Close dropWhile_all_then)
  with w(3,5) show "rmatch className_re t = Some (ms, e)"
    by (simp add: className_re_def)
qed

lemma tagName_rmatch:
  "rmatch tagName_re t = Some (ms, e) \<longleftrightarrow>
     (\<exists>q1 n q2. is_quote q1 \<and> is_quote q2 \<and> n \<noteq> [] \<and> list_all (\<lambda>c. \<not> is_quote c) n \<and>
        t = ''@customElement('' @ [q1] @ n @ [q2] @ '')'' @ e \<and>
        ms = [n @ [q2] @ '')'' @ e, [q2] @ '')'' @ e])"
proof
  let ?c = "\<lambda>c. \<not> is_quote c"
  have stop: "rmatch (Star ?c # Close # One is_quote # p) s =
      rmatch (Close # One is_quote # p) (dropWhile ?c s)" for p s
    by (rule rmatch_Star_stop) simp
  assume "rmatch tagName_re t = Some (ms, e)"
  then obtain t1 where t: "t = ''@customElement('' @ t1"
      and "rmatch [One is_quote, Open, Plus ?c, Close, One is_quote, Lit '')''] t1 = Some (ms, e)"
    unfolding tagName_re_def rmatch_Lit by auto
  then obtain q1 t2 where t1: "t1 = q1 # t2" "is_quote q1"
      and "rmatch [Open, Plus ?c, Close, One is_quote, Lit '')''] t2 = Some (ms, e)"
    unfolding rmatch_One by auto
  then obtain ms1 where ms: "ms = t2 # ms1"
      and pl: "rmatch [Plus ?c, Close, One is_quote, Lit '')''] t2 = Some (ms1, e)"
    unfolding rmatch_Open by auto
  from pl obtain x xs where t2: "t2 = x # xs" "?c x"
      and "rmatch [Star ?c, Close, One is_quote, Lit '')''] xs = Some (ms1, e)"
    by (cases t2) (auto split: if_splits)
  then have "rmatch [Close, One is_quote, Lit '')''] (dropWhile ?c xs) = Some (ms1, e)"
    by (simp add: stop)
  then obtain ms2 where ms1: "ms1 = dropWhile ?c xs # ms2"
      and "rmatch [One is_quote, Lit '')''] (dropWhile ?c xs) = Some (ms2, e)"
    unfolding rmatch_Close by auto
  then obtain q2 t4 where t3: "dropWhile ?c xs = q2 # t4" "is_quote q2"
      and "rmatch [Lit '')''] t4 = Some (ms2, e)"
    unfolding rmatch_One by auto
  then have t4: "t4 = '')'' @ e" "ms2 = []"
    unfolding rmatch_Lit by auto
  let ?n = "x # takeWhile ?c xs"
  have n: "?n \<noteq> []" "list_all ?c ?n"
    using t2 by (simp_all add: list_all_iff) (auto dest: set_takeWhileD)
  have "xs = takeWhile ?c xs @ dropWhile ?c xs" by simp
  with t3 t4 have "t2 = ?n @ [q2] @ '')'' @ e" using t2 by simp
  with t t1 ms ms1 t3 t4 n show "\<exists>q1 n q2. is_quote q1 \<and> is_quote q2 \<and> n \<noteq> [] \<and>
        list_all ?c n \<and> t = ''@customElement('' @ [q1] @ n @ [q2] @ '')'' @ e \<and>
        ms = [n @ [q2] @ '')'' @ e, [q2] @ '')'' @ e]"
    by (intro exI [of _ q1] exI [of _ ?n] exI [of _ q2]) simp
next
  let ?c = "\<lambda>c. \<not> is_quote c"
  have stop: "rmatch (Star ?c # Close # One is_quote # p) s =
      rmatch (Close # One is_quote # p) (dropWhile ?c s)" for p s
    by (rule rmatch_Star_stop) simp
  assume "\<exists>q1 n q2. is_quote q1 \<and> is_quote q2 \<and> n \<noteq> [] \<and> list_all ?c n \<and>
        t = ''@customElement('' @ [q1] @ n @ [q2] @ '')'' @ e \<and>
        ms = [n @ [q2] @ '')'' @ e, [q2] @ '')'' @ e]"
  then obtain q1 n q2 where q: "is_quote q1" "is_quote q2" "n \<noteq> []" "list_all ?c n"
      "t = ''@customElement('' @ [q1] @ n @ [q2] @ '')'' @ e"
      "ms = [n @ [q2] @ '')'' @ e, [q2] @ '')'' @ e]"
    by blast
  from q(3) obtain x xs where x: "n = x # xs" by (cases n) auto
  with q(4) have cx: "?c x" "list_all ?c xs" by simp_all
  have "takeWhile ?c ([q2] @ '')'' @ e) = []" using q(2) by simp
  with cx(2) have "dropWhile ?c (xs @ [q2] @ '')'' @ e) = [q2] @ '')'' @ e"
    by (rule dropWhile_all_then)
  with cx(1) q(2) have "rmatch [Plus ?c, Close, One is_quote, Lit '')''] (n @ [q2] @ '')'' @ e) =
      Some ([[q2] @ '')'' @ e], e)"
    unfolding x by (simp add: stop)
  with q(1,5,6) show "rmatch tagName_re t = Some (ms, e)"
    by (simp add: tagName_re_def)
qed

lemma search_finds:
  "rmatch p t = Some r \<Longrightarrow> \<forall>k<length pre. rmatch p (drop k (pre @ t)) = None \<Longrightarrow>
   search p (pre @ t) = Some (t, r)"
proof (induction pre)
  case Nil
  then show ?case by (cases t; cases r) auto
next
  case (Cons x pre)
  from Cons.prems(2) have "rmatch p (drop 0 ((x # pre) @ t)) = None" by blast
  then have 0: "rmatch p (x # pre @ t) = None" by simp
  have "\<forall>k<length pre. rmatch p (drop k (pre @ t)) = None"
  proof (intro allI impI)
    fix k assume "k < length pre"
    then have "Suc k < length (x # pre)" by simp
    with Cons.prems(2) have "rmatch p (drop (Suc k) ((x # pre) @ t)) = None" by blast
    then show "rmatch p (drop k (pre @ t)) = None" by simp
  qed
  with Cons.IH [OF Cons.prems(1)] 0 show ?case by simp
qed

lemma match_first:
  assumes decl: "\<And>t x. decl t x \<longleftrightarrow>
        (\<exists>ms e. rmatch re t = Some (ms, e) \<and> at (match_array (t, ms, e)) k = Some x)"
      and total: "\<And>t ms e. rmatch re t = Some (ms, e) \<Longrightarrow> at (match_array (t, ms, e)) k \<noteq> None"
  shows "(case match content re of Some m \<Rightarrow> at m k | None \<Rightarrow> None) = Some x \<longleftrightarrow>
           first_match decl content x"
proof
  assume "(case match content re of Some m \<Rightarrow> at m k | None \<Rightarrow> None) = Some x"
  then obtain t ms e where s: "search re content = Some (t, ms, e)"
      and x: "at (match_array (t, ms, e)) k = Some x"
    by (auto simp: match_def split: option.splits)
  from search_first [OF s] obtain pre where pre: "content = pre @ t"
      "\<forall>j<length pre. rmatch re (drop j content) = None"
    by blast
  from search_rmatch [OF s] x have "decl t x" using decl by blast
  moreover have "\<forall>j<length pre. \<forall>y. \<not> decl (drop j content) y"
    using pre(2) decl by auto
  ultimately show "first_match decl content x"
    using pre(1) unfolding first_match_def by blast
next
  assume "first_match decl content x"
  then obtain pre t where c: "content = pre @ t" and d: "decl t x"
      and none: "\<forall>j<length pre. \<forall>y. \<not> decl (drop j content) y"
    unfolding first_match_def by blast
  from d obtain ms e where r: "rmatch re t = Some (ms, e)" "at (match_array (t, ms, e)) k = Some x"
    using decl by blast
  have "\<forall>j<length pre. rmatch re (drop j (pre @ t)) = None"
  proof (intro allI impI)
    fix j assume j: "j < length pre"
    show "rmatch re (drop j (pre @ t)) = None"
    proof (cases "rmatch re (drop j (pre @ t))")
      case None
      then show ?thesis .
    next
      case (Some r')
      obtain ms' e' where "r' = (ms', e')" by (cases r') auto
      with Some total obtain y where "at (match_array (drop j (pre @ t), ms', e')) k = Some y"
        by fastforce
      with Some \<open>r' = (ms', e')\<close> have "decl (drop j (pre @ t)) y" using decl by blast
      with none j c show ?thesis by blast
    qed
  qed
  from search_finds [OF r(1) this] c have "search re content = Some (t, ms, e)" by simp
  with r(2) show "(case match content re of Some m \<Rightarrow> at m k | None \<Rightarrow> None) = Some x"
    by (simp add: match_def)
qed

lemma group1: "at (match_array (t, [g @ r, r], e)) 1 = Some g"
  by (simp add: at_def match_array_def)

lemma class_decl_rmatch:
  "class_decl t x \<longleftrightarrow>
      (\<exists>ms e. rmatch className_re t = Some (ms, e) \<and> at (match_array (t, ms, e)) 1 = Some x)"
proof
  assume "class_decl t x"
  then obtain w post where w: "w \<noteq> []" "list_all is_word w" "x = ''Md'' @ w"
      "t = ''export class '' @ x @ post" "takeWhile is_word post = []"
    unfolding class_decl_def by blast
  then have "rmatch className_re t = Some ([x @ post, post], post)"
    unfolding className_rmatch by auto
  moreover have "at (match_array (t, [x @ post, post], post)) 1 = Some x" by (rule group1)
  ultimately show "\<exists>ms e. rmatch className_re t = Some (ms, e) \<and>
      at (match_array (t, ms, e)) 1 = Some x"
    by blast
next
  assume "\<exists>ms e. rmatch className_re t = Some (ms, e) \<and> at (match_array (t, ms, e)) 1 = Some x"
  then obtain ms e where r: "rmatch className_re t = Some (ms, e)"
      and x: "at (match_array (t, ms, e)) 1 = Some x"
    by blast
  from r obtain w where w: "w \<noteq> []" "list_all is_word w" "t = ''export class Md'' @ w @ e"
      "takeWhile is_word e = []" "ms = [(''Md'' @ w) @ e, e]"
    unfolding className_rmatch by auto
  from x w(5) have "x = ''Md'' @ w" unfolding w(5) group1 by simp
  with w show "class_decl t x" unfolding class_decl_def by auto
qed

lemma tag_decl_rmatch:
  "tag_decl t x \<longleftrightarrow>
      (\<exists>ms e. rmatch tagName_re t = Some (ms, e) \<and> at (match_array (t, ms, e)) 1 = Some x)"
proof
  assume "tag_decl t x"
  then obtain q1 q2 post where q: "is_quote q1" "is_quote q2" "x \<noteq> []"
      "list_all (\<lambda>c. \<not> is_quote c) x" "t = ''@customElement('' @ [q1] @ x @ [q2] @ '')'' @ post"
    unfolding tag_decl_def by blast
  let ?r = "[q2] @ '')'' @ post"
  from q have "rmatch tagName_re t = Some ([x @ ?r, ?r], post)"
    unfolding tagName_rmatch by auto
  moreover have "at (match_array (t, [x @ ?r, ?r], post)) 1 = Some x" by (rule group1)
  ultimately show "\<exists>ms e. rmatch tagName_re t = Some (ms, e) \<and>
      at (match_array (t, ms, e)) 1 = Some x"
    by blast
next
  assume "\<exists>ms e. rmatch tagName_re t = Some (ms, e) \<and> at (match_array (t, ms, e)) 1 = Some x"
  then obtain ms e where r: "rmatch tagName_re t = Some (ms, e)"
      and x: "at (match_array (t, ms, e)) 1 = Some x"
    by blast
  from r obtain q1 n q2 where q: "is_quote q1" "is_quote q2" "n \<noteq> []"
      "list_all (\<lambda>c. \<not> is_quote c) n" "t = ''@customElement('' @ [q1] @ n @ [q2] @ '')'' @ e"
      "ms = [n @ ([q2] @ '')'' @ e), [q2] @ '')'' @ e]"
    unfolding tagName_rmatch by auto
  from x have "x = n" unfolding q(6) group1 by simp
  with q show "tag_decl t x" unfolding tag_decl_def by auto
qed

lemma extractClassName_first:
  "extractClassName content = Some n \<longleftrightarrow> first_match class_decl content n"
  unfolding extractClassName_def
proof (rule match_first)
  fix t x
  show "class_decl t x \<longleftrightarrow>
      (\<exists>ms e. rmatch className_re t = Some (ms, e) \<and> at (match_array (t, ms, e)) 1 = Some x)"
    by (rule class_decl_rmatch)
next
  fix t ms e
  assume "rmatch className_re t = Some (ms, e)"
  then obtain w where "ms = [(''Md'' @ w) @ e, e]"
    unfolding className_rmatch by auto
  then show "at (match_array (t, ms, e)) 1 \<noteq> None"
    by (simp only: group1) simp
qed

lemma extractTagName_first:
  "extractTagName content = Some n \<longleftrightarrow> first_match tag_decl content n"
  unfolding extractTagName_def
proof (rule match_first)
  fix t x
  show "tag_decl t x \<longleftrightarrow>
      (\<exists>ms e. rmatch tagName_re t = Some (ms, e) \<and> at (match_array (t, ms, e)) 1 = Some x)"
    by (rule tag_decl_rmatch)
next
  fix t ms e
  assume "rmatch tagName_re t = Some (ms, e)"
  then obtain n q2 where "ms = [n @ ([q2] @ '')'' @ e), [q2] @ '')'' @ e]"
    unfolding tagName_rmatch by auto
  then show "at (match_array (t, ms, e)) 1 \<noteq> None"
    by (simp only: group1) simp
qed

lemma extractClassName_nonempty: "extractClassName content = Some n \<Longrightarrow> n \<noteq> []"
  unfolding extractClassName_first first_match_def class_decl_def by auto

lemma extractTagName_nonempty: "extractTagName content = Some n \<Longrightarrow> n \<noteq> []"
  unfolding extractTagName_first first_match_def tag_decl_def by auto

lemma match_array_length:
  "rmatch p t = Some (ms, e) \<Longrightarrow> length (match_array (t, ms, e)) = 1 + length (filter paren p) div 2"
  by (simp add: match_array_def length_groups rmatch_marks)

lemma match_length: "match s p = Some m \<Longrightarrow> length m = 1 + length (filter paren p) div 2"
proof -
  assume "match s p = Some m"
  then obtain t ms e where "search p s = Some (t, ms, e)" "m = match_array (t, ms, e)"
    by (auto simp: match_def)
  then show ?thesis using search_rmatch match_array_length by blast
qed

lemma matchAll_length:
  "m \<in> set (matchAll s p) \<Longrightarrow> length m = 1 + length (filter paren p) div 2"
  using matchAll_mem match_array_length by blast

lemma propertyDocs_loop_total:
  "\<forall>m\<in>set ms. length m = 3 \<Longrightarrow> \<exists>pd'. propertyDocs_loop ms pd = Inr pd'"
proof (induction ms arbitrary: pd)
  case Nil
  then show ?case by simp
next
  case (Cons m ms)
  then have "length m = 3" by simp
  then have "at m 1 = Some (m ! 1)" "at m 2 = Some (m ! 2)" by (simp_all add: at_def)
  with Cons show ?case by (simp add: Let_def)
qed

lemma extractDocumentation_total: "\<exists>d pd. extractDocumentation content = Inr (d, pd)"
proof -
  have cls: "at m 1 = Some (m ! 1)" if "match content classDoc_re = Some m" for m
    using match_length [OF that] by (simp add: classDoc_re_def at_def)
  have "\<forall>m\<in>set (matchAll content propertyDoc_re). length m = 3"
    using matchAll_length by (fastforce simp: propertyDoc_re_def)
  then obtain pd where pd: "propertyDocs_loop (matchAll content propertyDoc_re) [] = Inr pd"
    using propertyDocs_loop_total by blast
  show ?thesis
  proof (cases "match content classDoc_re")
    case None
    with pd show ?thesis by (simp add: extractDocumentation_def)
  next
    case (Some m)
    with pd cls [OF Some] show ?thesis by (simp add: extractDocumentation_def)
  qed
qed

lemma visit_file_candidate: "visit_file fs cp cn file = Inr (Some v) \<Longrightarrow> candidate file"
  by (cases "candidate file") (simp_all add: visit_file_def)

lemma variants_loop_length:
  "variants_loop fs cp cn files = Inr vs \<Longrightarrow> length vs \<le> length (filter candidate files)"
proof (induction files arbitrary: vs)
  case Nil
  then show ?case by simp
next
  case (Cons f files)
  from Cons.prems obtain vo vs' where vo: "visit_file fs cp cn f = Inr vo"
      and vs': "variants_loop fs cp cn files = Inr vs'"
      and vs: "vs = (case vo of None \<Rightarrow> vs' | Some v \<Rightarrow> v # vs')"
    by (auto split: sum.splits)
  from Cons.IH [OF vs'] have le: "length vs' \<le> length (filter candidate files)" .
  show ?case
  proof (cases vo)
    case None
    with vs le show ?thesis by simp
  next
    case (Some v)
    with vo have "candidate f" by (auto dest: visit_file_candidate)
    with Some vs le show ?thesis by simp
  qed
qed

lemma visit_file_readable:
  assumes "candidate file" and "readFile fs (path_join cp file) = Inr content"
  shows "visit_file fs cp cn file =
     (if includes_str content ''@customElement'' \<and> includes_str content ''export class'' then
        (case (extractClassName content, extractTagName content) of
           (Some c, Some t) \<Rightarrow>
             Inr (Some \<lparr>fileName = replace ''.ts'' [] file, className = c, tagName = t,
                        importPath = ''@material/web/'' @ cn @ ''/'' @ replace ''.ts'' ''.js'' file,
                        events = extractEvents fs cp,
                        documentation = fst (projr (extractDocumentation content)),
                        propertyDocs = snd (projr (extractDocumentation content))\<rparr>)
         | _ \<Rightarrow> Inr None)
      else Inr None)"
proof -
  obtain d pd where "extractDocumentation content = Inr (d, pd)"
    using extractDocumentation_total by blast
  with assms show ?thesis
    by (auto simp: visit_file_def split: option.splits
        dest: extractClassName_nonempty extractTagName_nonempty)
qed

section \<open>The output of a run\<close>

text \<open>
  \<open>createOutputStructure\<close> issues the calls of \<open>output_calls\<close>, in this order, and stops at
  the first one that fails, in every output environment.
\<close>

lemma run_calls_append:
  "run_calls out (a @ b) s =
     (case run_calls out a s of Inl e \<Rightarrow> Inl e | Inr s' \<Rightarrow> run_calls out b s')"
proof (induction a arbitrary: s)
  case Nil
  then show ?case by simp
next
  case (Cons c a)
  then show ?case by (cases c) (simp_all split: sum.splits)
qed

lemma wrappers_loop_calls:
  "wrappers_loop out clock k cs allExports s =
     (case run_calls out (wrappers_calls clock k cs) s of
        Inl e \<Rightarrow> Inl e
      | Inr s' \<Rightarrow> Inr (allExports @ concat (map exports_of cs), s'))"
  by (induction cs arbitrary: k allExports s) (simp_all split: sum.splits)

lemma createOutputStructure_calls:
  "createOutputStructure out clock cs s = run_calls out (output_calls clock cs) s"
  by (simp add: createOutputStructure_def output_calls_def generateMainIndex_def
      wrappers_loop_calls run_calls_append split: sum.splits)

lemma main_calls:
  "analyzeComponentStructure fs = Inr cs \<Longrightarrow>
   main out fs clock s = run_calls out (output_calls clock cs) s"
  by (simp add: main_def createOutputStructure_calls)

lemma wrappers_calls_set:
  "set (wrappers_calls clock k cs) \<subseteq>
     (\<Union>c\<in>set cs. {Mkdir (path_join OUTPUT_DIR (name c))} \<union>
        {WriteFile (path_join (path_join OUTPUT_DIR (name c)) ''index.tsx'') text |text. True})"
  by (induction cs arbitrary: k) auto

lemma wrapper_path_inj:
  "path_join (path_join d n) f = path_join (path_join d n') f \<Longrightarrow> n = n'"
  by (simp add: path_join_def)

lemma wrapper_path_not_index:
  "path_join (path_join d n) ''index.tsx'' \<noteq> path_join d ''index.ts''"
proof
  assume "path_join (path_join d n) ''index.tsx'' = path_join d ''index.ts''"
  then have "n @ ''/index.tsx'' = ''index.ts''" by (simp add: path_join_def)
  then have "length (n @ ''/index.tsx'') = length ''index.ts''" by (rule arg_cong)
  then show False by simp
qed

lemma component_dir_inj: "path_join d n = path_join d n' \<Longrightarrow> n = n'"
  by (simp add: path_join_def)

lemma component_dir_not_root: "path_join d n \<noteq> d"
  by (simp add: path_join_def)

text \<open>
  A failing write ends the run: with a component directory named \<open>index.ts\<close>, the path
  \<open>src/index.ts\<close> is a directory when the main index is written, and the run ends with
  \<open>EISDIR\<close>.
\<close>

lemma main_write_failure:
  "main tree_out fs_index (\<lambda>k. ''2024-01-01T00:00:00.000Z'') [] = Inl EISDIR"
  by code_simp

text \<open>
  Claim C7: a directory whose extraction gives no variant gives no component in the analysis,
  the run issues no call for it, neither the creation of its output directory nor the write
  of a module, whatever the output environment does (and the generator returns the empty
  text for no variants), and no entry of the main index comes from it. The names of a
  listing are distinct.
\<close>

theorem zero_variants_never_materialized:
  assumes "readdir fs TEMP_DIR = Inr es" and "distinct (map dirent_name es)" and "entry \<in> set es"
    and "findAllComponentVariants fs (path_join TEMP_DIR (dirent_name entry)) (dirent_name entry) = []"
  shows "\<exists>cs. analyzeComponentStructure fs = Inr cs \<and>
      (\<forall>out s. main out fs clock s = run_calls out (output_calls clock cs) s) \<and>
      (\<forall>c\<in>set cs. variants c \<noteq> [] \<and> name c \<noteq> dirent_name entry) \<and>
      (\<forall>text. WriteFile (path_join (path_join OUTPUT_DIR (dirent_name entry)) ''index.tsx'') text
         \<notin> set (output_calls clock cs)) \<and>
      Mkdir (path_join OUTPUT_DIR (dirent_name entry)) \<notin> set (output_calls clock cs) \<and>
      (\<forall>x\<in>set (concat (map exports_of cs)). folder x \<noteq> dirent_name entry) \<and>
      generateReactWrapper timestamp \<lparr>name = dirent_name entry, variants = []\<rparr> = [] \<and>
      exports_of \<lparr>name = dirent_name entry, variants = []\<rparr> = []"
proof -
  define cs where "cs = components_loop fs TEMP_DIR es"
  have an: "analyzeComponentStructure fs = Inr cs"
    using assms(1) by (simp add: analyzeComponentStructure_def cs_def)
  then have mn: "\<forall>out s. main out fs clock s = run_calls out (output_calls clock cs) s"
    by (simp add: main_calls)
  have inj: "inj_on dirent_name (set es)"
    using assms(2) by (simp add: distinct_map)
  have each: "variants c \<noteq> [] \<and> name c \<noteq> dirent_name entry" if "c \<in> set cs" for c
  proof -
    from that obtain e where e: "e \<in> set es"
      "findAllComponentVariants fs (path_join TEMP_DIR (dirent_name e)) (dirent_name e) \<noteq> []"
      "c = \<lparr>name = dirent_name e,
            variants = findAllComponentVariants fs (path_join TEMP_DIR (dirent_name e)) (dirent_name e)\<rparr>"
      unfolding cs_def components_loop_eq by auto
    have "dirent_name e \<noteq> dirent_name entry"
    proof
      assume "dirent_name e = dirent_name entry"
      with inj e(1) assms(3) have "e = entry" by (auto dest: inj_onD)
      with e(2) assms(4) show False by simp
    qed
    with e show ?thesis by simp
  qed
  have writes: "WriteFile (path_join (path_join OUTPUT_DIR (dirent_name entry)) ''index.tsx'') tx
         \<notin> set (output_calls clock cs)" for tx
  proof
    assume "WriteFile (path_join (path_join OUTPUT_DIR (dirent_name entry)) ''index.tsx'') tx
         \<in> set (output_calls clock cs)"
    then consider
        "WriteFile (path_join (path_join OUTPUT_DIR (dirent_name entry)) ''index.tsx'') tx
           \<in> set (wrappers_calls clock 0 cs)"
      | "path_join (path_join OUTPUT_DIR (dirent_name entry)) ''index.tsx'' =
         path_join OUTPUT_DIR ''index.ts''"
      unfolding output_calls_def by auto
    then show False
    proof cases
      case 1
      with wrappers_calls_set [of clock 0 cs] obtain c where "c \<in> set cs"
        "path_join (path_join OUTPUT_DIR (dirent_name entry)) ''index.tsx'' =
         path_join (path_join OUTPUT_DIR (name c)) ''index.tsx''"
        by auto
      then have "c \<in> set cs" "dirent_name entry = name c" by (auto dest: wrapper_path_inj)
      with each show False by auto
    next
      case 2
      then show False by (simp add: wrapper_path_not_index)
    qed
  qed
  have dirs: "Mkdir (path_join OUTPUT_DIR (dirent_name entry)) \<notin> set (output_calls clock cs)"
  proof
    assume "Mkdir (path_join OUTPUT_DIR (dirent_name entry)) \<in> set (output_calls clock cs)"
    then consider
        "Mkdir (path_join OUTPUT_DIR (dirent_name entry)) \<in> set (wrappers_calls clock 0 cs)"
      | "path_join OUTPUT_DIR (dirent_name entry) = OUTPUT_DIR"
      unfolding output_calls_def by auto
    then show False
    proof cases
      case 1
      with wrappers_calls_set [of clock 0 cs] obtain c where "c \<in> set cs"
        "path_join OUTPUT_DIR (dirent_name entry) = path_join OUTPUT_DIR (name c)"
        by auto
      then have "c \<in> set cs" "dirent_name entry = name c" by (auto dest: component_dir_inj)
      with each show False by auto
    next
      case 2
      then show False by (simp add: component_dir_not_root)
    qed
  qed
  have exps: "folder x \<noteq> dirent_name entry" if "x \<in> set (concat (map exports_of cs))" for x
  proof -
    from that obtain c where "c \<in> set cs" "folder x = name c"
      by (auto simp: exports_of_def)
    with each show ?thesis by auto
  qed
  have "generateReactWrapper timestamp \<lparr>name = dirent_name entry, variants = []\<rparr> = []"
    by (simp add: generateReactWrapper_def)
  moreover have "exports_of \<lparr>name = dirent_name entry, variants = []\<rparr> = []"
    by (simp add: exports_of_def)
  ultimately show ?thesis
    using an mn each writes dirs exps by blast
qed


text \<open>
  The tree \<open>fs_list\<close> has the directory \<open>labs\<close>, which holds no source file: the run over
  an empty output tree creates \<open>src\<close> and \<open>src/list\<close> and writes one module and the main
  index.
\<close>

theorem zero_variants_never_materialized_witness:
  "readdir fs_list TEMP_DIR =
     Inr [Dirent ''.git'' True, Dirent ''docs'' True, Dirent ''list'' True, Dirent ''labs'' True,
          Dirent ''chips'' True, Dirent ''menu'' True, Dirent ''README.md'' False] \<and>
   findAllComponentVariants fs_list (path_join TEMP_DIR ''labs'') ''labs'' = [] \<and>
   (\<exists>cs. analyzeComponentStructure fs_list = Inr cs \<and>
      main tree_out fs_list (\<lambda>k. ''2024-01-01T00:00:00.000Z'') [] =
        run_calls tree_out (output_calls (\<lambda>k. ''2024-01-01T00:00:00.000Z'') cs) [] \<and>
      (\<forall>c\<in>set cs. variants c \<noteq> [] \<and> name c \<noteq> ''labs'') \<and>
      (\<forall>text. WriteFile (path_join (path_join OUTPUT_DIR ''labs'') ''index.tsx'') text
         \<notin> set (output_calls (\<lambda>k. ''2024-01-01T00:00:00.000Z'') cs)) \<and>
      Mkdir (path_join OUTPUT_DIR ''labs'')
        \<notin> set (output_calls (\<lambda>k. ''2024-01-01T00:00:00.000Z'') cs) \<and>
      (\<forall>x\<in>set (concat (map exports_of cs)). folder x \<noteq> ''labs'')) \<and>
   map_sum id (map fst) (main tree_out fs_list (\<lambda>k. ''2024-01-01T00:00:00.000Z'') []) =
     Inr [''src'', ''src/list'', ''src/list/index.tsx'', ''src/index.ts'']"
proof -
  let ?es = "[Dirent ''.git'' True, Dirent ''docs'' True, Dirent ''list'' True, Dirent ''labs'' True,
          Dirent ''chips'' True, Dirent ''menu'' True, Dirent ''README.md'' False]"
  have h1: "readdir fs_list TEMP_DIR = Inr ?es" by code_simp
  have h2: "distinct (map dirent_name ?es)" by simp
  have h3: "Dirent ''labs'' True \<in> set ?es" by simp
  have h4: "findAllComponentVariants fs_list (path_join TEMP_DIR (dirent_name (Dirent ''labs'' True)))
              (dirent_name (Dirent ''labs'' True)) = []"
    by code_simp
  from h4 have h4': "findAllComponentVariants fs_list (path_join TEMP_DIR ''labs'') ''labs'' = []"
    by simp
  have w: "map_sum id (map fst) (main tree_out fs_list (\<lambda>k. ''2024-01-01T00:00:00.000Z'') []) =
     Inr [''src'', ''src/list'', ''src/list/index.tsx'', ''src/index.ts'']"
    by code_simp
  from zero_variants_never_materialized [OF h1 h2 h3 h4,
      where clock = "\<lambda>k. ''2024-01-01T00:00:00.000Z''" and timestamp = "[]"]
  obtain cs where cs: "analyzeComponentStructure fs_list = Inr cs"
      "\<forall>out s. main out fs_list (\<lambda>k. ''2024-01-01T00:00:00.000Z'') s =
         run_calls out (output_calls (\<lambda>k. ''2024-01-01T00:00:00.000Z'') cs) (s :: tree)"
      "\<forall>c\<in>set cs. variants c \<noteq> [] \<and> name c \<noteq> ''labs''"
      "\<forall>text. WriteFile (path_join (path_join OUTPUT_DIR ''labs'') ''index.tsx'') text
         \<notin> set (output_calls (\<lambda>k. ''2024-01-01T00:00:00.000Z'') cs)"
      "Mkdir (path_join OUTPUT_DIR ''labs'')
        \<notin> set (output_calls (\<lambda>k. ''2024-01-01T00:00:00.000Z'') cs)"
      "\<forall>x\<in>set (concat (map exports_of cs)). folder x \<noteq> ''labs''"
    by auto
  from cs(2) have "main tree_out fs_list (\<lambda>k. ''2024-01-01T00:00:00.000Z'') [] =
        run_calls tree_out (output_calls (\<lambda>k. ''2024-01-01T00:00:00.000Z'') cs) []"
    by blast
  with cs(1,3,4,5,6) h1 h4' w show ?thesis by blast
qed

section \<open>Two runs\<close>

lemma header_split:
  "header title t =
     (''/**\<newline> * @fileoverview '' @ title @ ''\<newline> * '') @
     ''\<newline> * This file was auto-generated on '' @ t @ ''\<newline>'' @
     '' * \<newline> * DO NOT EDIT MANUALLY - This file is generated by generate.js\<newline> * To regenerate, run: npm run generate\<newline> * \<newline> * @generated\<newline> */''"
  by (simp add: header_def)

lemma same_header:
  assumes "CHR 0x0A \<notin> set t1" and "CHR 0x0A \<notin> set t2"
  shows "same_but_timestamp_line (header title t1 @ rest) (header title t2 @ rest)"
proof -
  let ?pre = "''/**\<newline> * @fileoverview '' @ title @ ''\<newline> * ''"
  let ?post = "'' * \<newline> * DO NOT EDIT MANUALLY - This file is generated by generate.js\<newline> * To regenerate, run: npm run generate\<newline> * \<newline> * @generated\<newline> */'' @ rest"
  have "header title t1 @ rest = ?pre @ ''\<newline> * This file was auto-generated on '' @ t1 @ ''\<newline>'' @ ?post"
    and "header title t2 @ rest = ?pre @ ''\<newline> * This file was auto-generated on '' @ t2 @ ''\<newline>'' @ ?post"
    by (simp_all add: header_split)
  with assms show ?thesis unfolding same_but_timestamp_line_def by blast
qed

lemma wrapper_same:
  "CHR 0x0A \<notin> set t1 \<Longrightarrow> CHR 0x0A \<notin> set t2 \<Longrightarrow>
   same_but_timestamp_line (generateReactWrapper t1 c) (generateReactWrapper t2 c)"
  unfolding generateReactWrapper_def
  by (auto intro: same_header simp: same_but_timestamp_line_def [of "[]" "[]"])

lemma same_but_timestamp_line_one_line:
  "same_but_timestamp_line a b \<Longrightarrow> CHR 0x0A \<notin> set a \<Longrightarrow> a = b"
  unfolding same_but_timestamp_line_def by auto

lemma index_same:
  "CHR 0x0A \<notin> set t1 \<Longrightarrow> CHR 0x0A \<notin> set t2 \<Longrightarrow>
   same_but_timestamp_line (indexContent t1 xs) (indexContent t2 xs)"
  unfolding indexContent_def by (rule same_header)

lemma wrappers_calls_same:
  assumes "\<forall>k. CHR 0x0A \<notin> set (clock1 k)" and "\<forall>k. CHR 0x0A \<notin> set (clock2 k)"
  shows "list_all2 same_call (wrappers_calls clock1 k cs) (wrappers_calls clock2 k cs)"
  using assms by (induction cs arbitrary: k) (simp_all add: wrapper_same)

lemma output_calls_same:
  assumes "\<forall>k. CHR 0x0A \<notin> set (clock1 k)" and "\<forall>k. CHR 0x0A \<notin> set (clock2 k)"
  shows "list_all2 same_call (output_calls clock1 cs) (output_calls clock2 cs)"
  unfolding output_calls_def
  using assms by (auto intro!: list_all2_appendI wrappers_calls_same index_same)

text \<open>
  Claim C9: two runs over the same tree issue the same calls in the same order, to the same
  paths, with the same texts but for the time stamp line of each header; each run is these
  calls, executed until one fails, or the failure of the listing of the root. The time
  stamps of a run are the texts of \<open>toISOString\<close>, which have no line break.
\<close>

theorem runs_differ_only_in_timestamp_lines:
  assumes "\<forall>k. CHR 0x0A \<notin> set (clock1 k)" and "\<forall>k. CHR 0x0A \<notin> set (clock2 k)"
  shows "(case analyzeComponentStructure fs of
            Inl e \<Rightarrow> \<forall>(out :: 's outfs) s. main out fs clock1 s = Inl e \<and> main out fs clock2 s = Inl e
          | Inr cs \<Rightarrow>
              (\<forall>(out :: 's outfs) s. main out fs clock1 s = run_calls out (output_calls clock1 cs) s \<and>
                       main out fs clock2 s = run_calls out (output_calls clock2 cs) s) \<and>
              list_all2 same_call (output_calls clock1 cs) (output_calls clock2 cs)) \<and>
         same_but_timestamp_line (generateReactWrapper (clock1 k) c) (generateReactWrapper (clock2 k) c) \<and>
         same_but_timestamp_line (indexContent (clock1 k) xs) (indexContent (clock2 k) xs)"
proof -
  have "case analyzeComponentStructure fs of
            Inl e \<Rightarrow> \<forall>(out :: 's outfs) s. main out fs clock1 s = Inl e \<and> main out fs clock2 s = Inl e
          | Inr cs \<Rightarrow>
              (\<forall>(out :: 's outfs) s. main out fs clock1 s = run_calls out (output_calls clock1 cs) s \<and>
                       main out fs clock2 s = run_calls out (output_calls clock2 cs) s) \<and>
              list_all2 same_call (output_calls clock1 cs) (output_calls clock2 cs)"
  proof (cases "analyzeComponentStructure fs")
    case (Inl e)
    then show ?thesis by (simp add: main_def)
  next
    case (Inr cs)
    then show ?thesis using assms by (simp add: main_calls output_calls_same)
  qed
  with assms show ?thesis by (simp add: wrapper_same index_same)
qed


text \<open>
  Two runs over \<open>fs_list\<close>, at two dates, from an empty output tree: the results differ, in
  the time stamp lines only.
\<close>

theorem runs_differ_only_in_timestamp_lines_witness:
  "(\<forall>k. CHR 0x0A \<notin> set ((\<lambda>k. ''2024-01-01T00:00:00.000Z'') (k::nat))) \<and>
   (\<forall>k. CHR 0x0A \<notin> set ((\<lambda>k. ''2024-01-02T09:30:00.000Z'') (k::nat))) \<and>
   (\<exists>cs. analyzeComponentStructure fs_list = Inr cs \<and>
      main tree_out fs_list (\<lambda>k. ''2024-01-01T00:00:00.000Z'') [] =
        run_calls tree_out (output_calls (\<lambda>k. ''2024-01-01T00:00:00.000Z'') cs) [] \<and>
      main tree_out fs_list (\<lambda>k. ''2024-01-02T09:30:00.000Z'') [] =
        run_calls tree_out (output_calls (\<lambda>k. ''2024-01-02T09:30:00.000Z'') cs) [] \<and>
      list_all2 same_call (output_calls (\<lambda>k. ''2024-01-01T00:00:00.000Z'') cs)
        (output_calls (\<lambda>k. ''2024-01-02T09:30:00.000Z'') cs)) \<and>
   main tree_out fs_list (\<lambda>k. ''2024-01-01T00:00:00.000Z'') [] \<noteq>
     main tree_out fs_list (\<lambda>k. ''2024-01-02T09:30:00.000Z'') [] \<and>
   map_sum id (map fst) (main tree_out fs_list (\<lambda>k. ''2024-01-01T00:00:00.000Z'') []) =
     Inr [''src'', ''src/list'', ''src/list/index.tsx'', ''src/index.ts'']"
proof -
  have h1: "\<forall>k. CHR 0x0A \<notin> set ((\<lambda>k. ''2024-01-01T00:00:00.000Z'') (k::nat))" by simp
  have h2: "\<forall>k. CHR 0x0A \<notin> set ((\<lambda>k. ''2024-01-02T09:30:00.000Z'') (k::nat))" by simp
  have n: "main tree_out fs_list (\<lambda>k. ''2024-01-01T00:00:00.000Z'') [] \<noteq>
     main tree_out fs_list (\<lambda>k. ''2024-01-02T09:30:00.000Z'') []"
    by code_simp
  have l: "map_sum id (map fst) (main tree_out fs_list (\<lambda>k. ''2024-01-01T00:00:00.000Z'') []) =
     Inr [''src'', ''src/list'', ''src/list/index.tsx'', ''src/index.ts'']"
    by code_simp
  have a: "map_sum id length (analyzeComponentStructure fs_list) = Inr 1" by code_simp
  then obtain cs where cs: "analyzeComponentStructure fs_list = Inr cs"
    by (cases "analyzeComponentStructure fs_list") auto
  from runs_differ_only_in_timestamp_lines [OF h1 h2, where fs = fs_list and ?'s = tree
      and c = "\<lparr>name = [], variants = []\<rparr>" and xs = "[]"] cs
  have "(\<forall>out s. main out fs_list (\<lambda>k. ''2024-01-01T00:00:00.000Z'') s =
             run_calls out (output_calls (\<lambda>k. ''2024-01-01T00:00:00.000Z'') cs) (s :: tree) \<and>
           main out fs_list (\<lambda>k. ''2024-01-02T09:30:00.000Z'') s =
             run_calls out (output_calls (\<lambda>k. ''2024-01-02T09:30:00.000Z'') cs) s) \<and>
         list_all2 same_call (output_calls (\<lambda>k. ''2024-01-01T00:00:00.000Z'') cs)
           (output_calls (\<lambda>k. ''2024-01-02T09:30:00.000Z'') cs)"
    by simp
  with cs h1 h2 n l show ?thesis by blast
qed

section \<open>Failures and the run\<close>

text \<open>When no output call fails, the calls of a run are all executed.\<close>

lemma run_calls_returns:
  assumes "\<forall>p s. \<exists>s'. mkdir out p s = Inr s'" and "\<forall>p t s. \<exists>s'. writeFile out p t s = Inr s'"
  shows "\<exists>s'. run_calls out calls s = Inr s'"
proof (induction calls arbitrary: s)
  case Nil
  then show ?case by simp
next
  case (Cons c calls)
  show ?case
  proof (cases c)
    case (Mkdir p)
    from assms(1) obtain s1 where "mkdir out p s = Inr s1" by blast
    with Cons Mkdir show ?thesis by simp
  next
    case (WriteFile p t)
    from assms(2) obtain s1 where "writeFile out p t s = Inr s1" by blast
    with Cons WriteFile show ?thesis by simp
  qed
qed

lemma failing_directory_empty:
  assumes "readdir fs cp = Inl e \<or>
     readdir fs cp = Inr ds \<and> file \<in> set (map dirent_name ds) \<and> candidate file \<and>
     readFile fs (path_join cp file) = Inl e"
  shows "findAllComponentVariants fs cp cn = []"
  using assms
proof
  assume "readdir fs cp = Inl e"
  then show ?thesis by (simp add: findAllComponentVariants_def)
next
  assume a: "readdir fs cp = Inr ds \<and> file \<in> set (map dirent_name ds) \<and> candidate file \<and>
     readFile fs (path_join cp file) = Inl e"
  then obtain e' where "variants_loop fs cp cn (map dirent_name ds) = Inl e'"
    using variants_loop_unreadable by blast
  with a show ?thesis by (simp add: findAllComponentVariants_def)
qed

text \<open>
  Claim C6: a failure to list a directory or to read a file during the extraction is caught
  where it happens and gives an empty value: no variant for the component directory that
  cannot be listed or that has a candidate file that cannot be read, no event when the
  internal directory is absent or cannot be listed, or when its first candidate file cannot
  be read. \<open>findAllComponentVariants\<close> and \<open>extractEvents\<close> return a value in every case.
  The run goes on: when such a failure happens in one directory of the root, the analysis
  returns the components of the directories listed before it and after it, the same as if
  the failing directory were not listed, the run issues the output calls for these
  components, and it returns when no output call fails.
\<close>

theorem extraction_failures_yield_empty:
  "(readdir fs cp = Inl e \<longrightarrow> findAllComponentVariants fs cp cn = []) \<and>
   (readdir fs cp = Inr ds \<and> file \<in> set (map dirent_name ds) \<and> candidate file \<and>
    readFile fs (path_join cp file) = Inl e \<longrightarrow>
      findAllComponentVariants fs cp cn = []) \<and>
   (readdir fs (path_join cp ''internal'') = Inl e \<longrightarrow> extractEvents fs cp = []) \<and>
   (readdir fs (path_join cp ''internal'') = Inr ds \<and>
    map dirent_name ds = pre @ file # post \<and> (\<forall>f\<in>set pre. \<not> internal_candidate f) \<and>
    internal_candidate file \<and>
    readFile fs (path_join (path_join cp ''internal'') file) = Inl e \<longrightarrow>
      extractEvents fs cp = []) \<and>
   (readdir fs TEMP_DIR = Inr (es1 @ entry # es2) \<and>
    (readdir fs (path_join TEMP_DIR (dirent_name entry)) = Inl e \<or>
     readdir fs (path_join TEMP_DIR (dirent_name entry)) = Inr ds \<and>
     file \<in> set (map dirent_name ds) \<and> candidate file \<and>
     readFile fs (path_join (path_join TEMP_DIR (dirent_name entry)) file) = Inl e) \<longrightarrow>
      (\<exists>cs. analyzeComponentStructure fs = Inr cs \<and>
         cs = map (\<lambda>d. \<lparr>name = dirent_name d,
                         variants = findAllComponentVariants fs (path_join TEMP_DIR (dirent_name d))
                                      (dirent_name d)\<rparr>)
                (filter (\<lambda>d. component_dir d \<and>
                           findAllComponentVariants fs (path_join TEMP_DIR (dirent_name d))
                             (dirent_name d) \<noteq> [])
                   (es1 @ es2)) \<and>
         (\<forall>(out :: 's outfs) s.
            main out fs clock s = run_calls out (output_calls clock cs) s) \<and>
         (\<forall>(out :: 's outfs) s.
            (\<forall>p s. \<exists>s'. mkdir out p s = Inr s') \<and> (\<forall>p t s. \<exists>s'. writeFile out p t s = Inr s') \<longrightarrow>
            (\<exists>s'. main out fs clock s = Inr s'))))"
proof (intro conjI impI)
  assume "readdir fs cp = Inl e"
  then show "findAllComponentVariants fs cp cn = []"
    by (simp add: findAllComponentVariants_def)
next
  assume a: "readdir fs cp = Inr ds \<and> file \<in> set (map dirent_name ds) \<and> candidate file \<and>
    readFile fs (path_join cp file) = Inl e"
  then show "findAllComponentVariants fs cp cn = []"
    by (rule failing_directory_empty [OF disjI2])
next
  assume "readdir fs (path_join cp ''internal'') = Inl e"
  then show "extractEvents fs cp = []"
    by (simp add: extractEvents_def)
next
  assume a: "readdir fs (path_join cp ''internal'') = Inr ds \<and>
    map dirent_name ds = pre @ file # post \<and> (\<forall>f\<in>set pre. \<not> internal_candidate f) \<and>
    internal_candidate file \<and>
    readFile fs (path_join (path_join cp ''internal'') file) = Inl e"
  then have "internal_loop fs (path_join cp ''internal'') (map dirent_name ds) = Inl e"
    by (simp add: internal_loop_first)
  with a show "extractEvents fs cp = []"
    by (simp add: extractEvents_def)
next
  let ?vs = "\<lambda>d. findAllComponentVariants fs (path_join TEMP_DIR (dirent_name d)) (dirent_name d)"
  let ?cs = "map (\<lambda>d. \<lparr>name = dirent_name d, variants = ?vs d\<rparr>)
                (filter (\<lambda>d. component_dir d \<and> ?vs d \<noteq> []) (es1 @ es2))"
  assume a: "readdir fs TEMP_DIR = Inr (es1 @ entry # es2) \<and>
    (readdir fs (path_join TEMP_DIR (dirent_name entry)) = Inl e \<or>
     readdir fs (path_join TEMP_DIR (dirent_name entry)) = Inr ds \<and>
     file \<in> set (map dirent_name ds) \<and> candidate file \<and>
     readFile fs (path_join (path_join TEMP_DIR (dirent_name entry)) file) = Inl e)"
  then have "?vs entry = []" by (intro failing_directory_empty) blast
  then have "components_loop fs TEMP_DIR (es1 @ entry # es2) = ?cs"
    by (simp add: components_loop_eq)
  with a have an: "analyzeComponentStructure fs = Inr ?cs"
    by (simp add: analyzeComponentStructure_def)
  then have mn: "main out fs clock s = run_calls out (output_calls clock ?cs) s"
    for out :: "'s outfs" and s
    by (rule main_calls)
  have "\<exists>s'. main out fs clock s = Inr s'"
    if "(\<forall>p s. \<exists>s'. mkdir out p s = Inr s') \<and> (\<forall>p t s. \<exists>s'. writeFile out p t s = Inr s')"
    for out :: "'s outfs" and s
    using that run_calls_returns [of out "output_calls clock ?cs" s] by (simp add: mn)
  with an mn show "\<exists>cs. analyzeComponentStructure fs = Inr cs \<and>
         cs = ?cs \<and>
         (\<forall>(out :: 's outfs) s.
            main out fs clock s = run_calls out (output_calls clock cs) s) \<and>
         (\<forall>(out :: 's outfs) s.
            (\<forall>p s. \<exists>s'. mkdir out p s = Inr s') \<and> (\<forall>p t s. \<exists>s'. writeFile out p t s = Inr s') \<longrightarrow>
            (\<exists>s'. main out fs clock s = Inr s'))"
    by blast
qed

text \<open>
  In \<open>fs_faults\<close> the directory \<open>chips\<close> cannot be listed and \<open>menu\<close> has an unreadable
  candidate file; both are listed before \<open>list\<close>, whose module is written.
\<close>

theorem extraction_failures_yield_empty_witness:
  "readdir fs_faults ''temp-material-web/chips'' = Inl EACCES \<and>
   findAllComponentVariants fs_faults ''temp-material-web/chips'' ''chips'' = [] \<and>
   readdir fs_faults ''temp-material-web/menu'' =
     Inr [Dirent ''menu.ts'' False, Dirent ''sub-menu.ts'' False, Dirent ''internal'' True] \<and>
   candidate ''sub-menu.ts'' \<and>
   readFile fs_faults (path_join ''temp-material-web/menu'' ''sub-menu.ts'') = Inl EACCES \<and>
   findAllComponentVariants fs_faults ''temp-material-web/menu'' ''menu'' = [] \<and>
   readdir fs_faults (path_join ''temp-material-web/labs'' ''internal'') = Inl ENOENT \<and>
   extractEvents fs_faults ''temp-material-web/labs'' = [] \<and>
   readdir fs_faults (path_join ''temp-material-web/menu'' ''internal'') =
     Inr [Dirent ''menu-styles.ts'' False, Dirent ''menu.ts'' False] \<and>
   \<not> internal_candidate ''menu-styles.ts'' \<and> internal_candidate ''menu.ts'' \<and>
   readFile fs_faults (path_join (path_join ''temp-material-web/menu'' ''internal'') ''menu.ts'') =
     Inl ENOENT \<and>
   extractEvents fs_faults ''temp-material-web/menu'' = [] \<and>
   readdir fs_faults TEMP_DIR =
     Inr ([Dirent ''chips'' True] @ Dirent ''menu'' True # [Dirent ''list'' True]) \<and>
   (\<exists>cs. analyzeComponentStructure fs_faults = Inr cs \<and>
      map name cs = [''list''] \<and>
      map (map className \<circ> variants) cs = [[''MdList'']] \<and>
      main log_out fs_faults (\<lambda>k. []) [] = run_calls log_out (output_calls (\<lambda>k. []) cs) [] \<and>
      (\<exists>s'. main log_out fs_faults (\<lambda>k. []) [] = Inr s')) \<and>
   map_sum id (map (\<lambda>c. case c of Mkdir p \<Rightarrow> p | WriteFile p t \<Rightarrow> p))
     (main log_out fs_faults (\<lambda>k. []) []) =
     Inr [''src'', ''src/list'', ''src/list/index.tsx'', ''src/index.ts'']"
proof -
  let ?root = "[Dirent ''chips'' True] @ Dirent ''menu'' True # [Dirent ''list'' True]"
  let ?menu = "[Dirent ''menu.ts'' False, Dirent ''sub-menu.ts'' False, Dirent ''internal'' True]"
  let ?int = "[Dirent ''menu-styles.ts'' False, Dirent ''menu.ts'' False]"
  have a1: "readdir fs_faults ''temp-material-web/chips'' = Inl EACCES" by code_simp
  have b1: "readdir fs_faults ''temp-material-web/menu'' = Inr ?menu" by code_simp
  have b2: "''sub-menu.ts'' \<in> set (map dirent_name ?menu)" by simp
  have b3: "candidate ''sub-menu.ts''" by code_simp
  have b4: "readFile fs_faults (path_join ''temp-material-web/menu'' ''sub-menu.ts'') = Inl EACCES"
    by code_simp
  have c1: "readdir fs_faults (path_join ''temp-material-web/labs'' ''internal'') = Inl ENOENT"
    by code_simp
  have d1: "readdir fs_faults (path_join ''temp-material-web/menu'' ''internal'') = Inr ?int"
    by code_simp
  have d2: "map dirent_name ?int = [''menu-styles.ts''] @ ''menu.ts'' # []" by simp
  have d3: "\<not> internal_candidate ''menu-styles.ts''" by code_simp
  have d4: "internal_candidate ''menu.ts''" by code_simp
  have d5: "readFile fs_faults (path_join (path_join ''temp-material-web/menu'' ''internal'') ''menu.ts'') =
     Inl ENOENT"
    by code_simp
  have e1: "readdir fs_faults TEMP_DIR = Inr ?root" by code_simp
  have e2: "readdir fs_faults (path_join TEMP_DIR (dirent_name (Dirent ''menu'' True))) = Inr ?menu"
    by code_simp
  have e3: "readFile fs_faults
      (path_join (path_join TEMP_DIR (dirent_name (Dirent ''menu'' True))) ''sub-menu.ts'') = Inl EACCES"
    by code_simp
  have l1: "\<forall>p s. \<exists>s'. mkdir log_out p s = Inr s'" by (simp add: log_out_def)
  have l2: "\<forall>p t s. \<exists>s'. writeFile log_out p t s = Inr s'" by (simp add: log_out_def)
  have n: "map_sum id (map name) (analyzeComponentStructure fs_faults) = Inr [''list'']"
    by code_simp
  have v: "map_sum id (map (map className \<circ> variants)) (analyzeComponentStructure fs_faults) =
      Inr [[''MdList'']]"
    by code_simp
  have w: "map_sum id (map (\<lambda>c. case c of Mkdir p \<Rightarrow> p | WriteFile p t \<Rightarrow> p))
     (main log_out fs_faults (\<lambda>k. []) []) =
     Inr [''src'', ''src/list'', ''src/list/index.tsx'', ''src/index.ts'']"
    by code_simp
  have r1: "findAllComponentVariants fs_faults ''temp-material-web/chips'' ''chips'' = []"
    using extraction_failures_yield_empty [where fs = fs_faults and cp = "''temp-material-web/chips''"
        and e = EACCES and cn = "''chips''"] a1
    by blast
  have r2: "findAllComponentVariants fs_faults ''temp-material-web/menu'' ''menu'' = []"
    using extraction_failures_yield_empty [where fs = fs_faults and cp = "''temp-material-web/menu''"
        and e = EACCES and cn = "''menu''" and ds = ?menu and ?file = "''sub-menu.ts''"] b1 b2 b3 b4
    by blast
  have r3: "extractEvents fs_faults ''temp-material-web/labs'' = []"
    using extraction_failures_yield_empty [where fs = fs_faults and cp = "''temp-material-web/labs''"
        and e = ENOENT] c1
    by blast
  have r4: "extractEvents fs_faults ''temp-material-web/menu'' = []"
    using extraction_failures_yield_empty [where fs = fs_faults and cp = "''temp-material-web/menu''"
        and e = ENOENT and ds = ?int and ?file = "''menu.ts''" and pre = "[''menu-styles.ts'']"
        and post = "[]" and cn = "[]" and ?es1.0 = "[]" and entry = "Dirent [] False"
        and ?es2.0 = "[]" and clock = "\<lambda>k. []" and ?'s = unit] d1 d2 d3 d4 d5
    by simp
  from extraction_failures_yield_empty [where fs = fs_faults and ?'s = "call list"
        and ?es1.0 = "[Dirent ''chips'' True]"
        and entry = "Dirent ''menu'' True" and ?es2.0 = "[Dirent ''list'' True]" and e = EACCES
        and ds = ?menu and ?file = "''sub-menu.ts''" and clock = "\<lambda>k. []"] e1 e2 b2 b3 e3
  obtain cs where cs: "analyzeComponentStructure fs_faults = Inr cs"
      "\<forall>(out :: call list outfs) s.
          main out fs_faults (\<lambda>k. []) s = run_calls out (output_calls (\<lambda>k. []) cs) s"
      "\<forall>(out :: call list outfs) s.
            (\<forall>p s. \<exists>s'. mkdir out p s = Inr s') \<and> (\<forall>p t s. \<exists>s'. writeFile out p t s = Inr s') \<longrightarrow>
            (\<exists>s'. main out fs_faults (\<lambda>k. []) s = Inr s')"
    by blast
  from cs(2) have m1: "main log_out fs_faults (\<lambda>k. []) [] =
      run_calls log_out (output_calls (\<lambda>k. []) cs) []"
    by blast
  from cs(3) l1 l2 have m2: "\<exists>s'. main log_out fs_faults (\<lambda>k. []) [] = Inr s'" by blast
  from n v cs(1) have nv: "map name cs = [''list'']" "map (map className \<circ> variants) cs = [[''MdList'']]"
    by simp_all
  show ?thesis
    by (intro conjI exI [of _ cs]) (fact a1 b1 b3 b4 c1 d1 d3 d4 d5 e1 r1 r2 r3 r4 cs(1) m1 m2 nv w)+
qed

section \<open>The first candidate file of the internal directory\<close>

text \<open>
  \<open>toUpperCase\<close> on one character is the table of the letters \<open>a\<close> to \<open>z\<close>, and the handler
  name is \<open>on\<close>, the first character through this table, and the rest of the name.
\<close>

lemma lower_letters: "map char_of [97..122::int] = ''abcdefghijklmnopqrstuvwxyz''"
  by code_simp

lemma lower_letters_lower: "list_all is_lower ''abcdefghijklmnopqrstuvwxyz''"
  by code_simp

lemma is_lower_iff: "is_lower c \<longleftrightarrow> c \<in> set ''abcdefghijklmnopqrstuvwxyz''"
proof
  assume "is_lower c"
  then have "(of_char c :: int) \<in> set [97..122]"
    by (simp only: is_lower_def set_upto atLeastAtMost_iff)
  then have "char_of (of_char c :: int) \<in> set (map char_of [97..122::int])"
    unfolding set_map by (rule imageI)
  then show "c \<in> set ''abcdefghijklmnopqrstuvwxyz''"
    by (simp only: lower_letters char_of_char)
next
  assume "c \<in> set ''abcdefghijklmnopqrstuvwxyz''"
  with lower_letters_lower show "is_lower c" by (simp only: list_all_iff)
qed

lemma upper_letters:
  "list_all (\<lambda>c. toUpperCase_char c =
       (case map_of (zip ''abcdefghijklmnopqrstuvwxyz'' ''ABCDEFGHIJKLMNOPQRSTUVWXYZ'') c of
          Some u \<Rightarrow> u | None \<Rightarrow> c))
     ''abcdefghijklmnopqrstuvwxyz''"
  by code_simp

lemma toUpperCase_char_table:
  "toUpperCase_char c =
     (case map_of (zip ''abcdefghijklmnopqrstuvwxyz'' ''ABCDEFGHIJKLMNOPQRSTUVWXYZ'') c of
        Some u \<Rightarrow> u | None \<Rightarrow> c)"
proof (cases "is_lower c")
  case True
  then have "c \<in> set ''abcdefghijklmnopqrstuvwxyz''" using is_lower_iff by blast
  with upper_letters show ?thesis by (simp only: list_all_iff)
next
  case False
  then have "c \<notin> set ''abcdefghijklmnopqrstuvwxyz''" using is_lower_iff by blast
  moreover have "length ''abcdefghijklmnopqrstuvwxyz'' = length ''ABCDEFGHIJKLMNOPQRSTUVWXYZ''"
    by simp
  ultimately have
    "map_of (zip ''abcdefghijklmnopqrstuvwxyz'' ''ABCDEFGHIJKLMNOPQRSTUVWXYZ'') c = None"
    by (rule map_of_zip_is_None [THEN iffD2, rotated])
  with False show ?thesis by (simp add: toUpperCase_char_def)
qed

lemma reactEventName_table:
  "reactEventName n =
     ''on'' @
     map (\<lambda>c. case map_of (zip ''abcdefghijklmnopqrstuvwxyz'' ''ABCDEFGHIJKLMNOPQRSTUVWXYZ'') c of
                 Some u \<Rightarrow> u | None \<Rightarrow> c) (take 1 n) @
     drop 1 n"
proof -
  have "toUpperCase_char =
     (\<lambda>c. case map_of (zip ''abcdefghijklmnopqrstuvwxyz'' ''ABCDEFGHIJKLMNOPQRSTUVWXYZ'') c of
                 Some u \<Rightarrow> u | None \<Rightarrow> c)"
    by (rule ext) (rule toUpperCase_char_table)
  then show ?thesis
    by (simp only: reactEventName_def toUpperCase_def charAt_def slice_def drop_0)
qed

text \<open>
  Claim C4: the event extractor takes the files of the internal directory in the order of the
  listing and returns the mapping of the first candidate file only: for each event name of
  its \<open>@fires\<close> annotations, in order, the key \<open>on\<close> followed by the name with its first
  character in upper case (a letter \<open>a\<close> to \<open>z\<close> replaced by its capital, any other
  character kept), mapped to the name. It returns after that file also when the mapping is
  empty; what follows the file in the listing has no effect on the result.
\<close>

theorem extractEvents_first_candidate:
  assumes "readdir fs (path_join cp ''internal'') = Inr ds"
    and "map dirent_name ds = pre @ file # post"
    and "\<forall>f\<in>set pre. \<not> internal_candidate f"
    and "internal_candidate file"
    and "readFile fs (path_join (path_join cp ''internal'') file) = Inr content"
  shows "(\<exists>names. map (\<lambda>m. at m 1) (matchAll content fires_re) = map Some names \<and>
           (\<forall>n\<in>set names. n \<noteq> [] \<and> list_all is_word n) \<and>
           extractEvents fs cp =
             fold (\<lambda>n. AList.update
                     (''on'' @
                      map (\<lambda>c. case map_of (zip ''abcdefghijklmnopqrstuvwxyz''
                                                ''ABCDEFGHIJKLMNOPQRSTUVWXYZ'') c of
                                  Some u \<Rightarrow> u | None \<Rightarrow> c) (take 1 n) @
                      drop 1 n) n)
               names []) \<and>
         (\<forall>fs' ds' post'.
            readdir fs' (path_join cp ''internal'') = Inr ds' \<and>
            map dirent_name ds' = pre @ file # post' \<and>
            readFile fs' (path_join (path_join cp ''internal'') file) = Inr content \<longrightarrow>
            extractEvents fs' cp = extractEvents fs cp) \<and>
         reactEventName ''change'' = ''onChange''"
proof -
  have first: "extractEvents g cp = (case events_loop (matchAll content fires_re) [] of Inl e \<Rightarrow> [] | Inr ev \<Rightarrow> ev)"
    if "readdir g (path_join cp ''internal'') = Inr dg" "map dirent_name dg = pre @ file # rest"
      "readFile g (path_join (path_join cp ''internal'') file) = Inr content" for g dg rest
    using that assms(3,4) by (simp add: extractEvents_def internal_loop_first)
  obtain names where names: "map (\<lambda>m. at m 1) (matchAll content fires_re) = map Some names"
    "\<forall>n\<in>set names. n \<noteq> [] \<and> list_all is_word n"
    using fires_names by blast
  have "events_loop (matchAll content fires_re) [] =
      Inr (fold (\<lambda>n. AList.update (reactEventName n) n) names [])"
    using events_loop_names [OF names(1)] by (simp add: obj_set_event)
  with first [OF assms(1,2,5)] have
    "extractEvents fs cp = fold (\<lambda>n. AList.update (reactEventName n) n) names []" by simp
  then have "extractEvents fs cp =
             fold (\<lambda>n. AList.update
                     (''on'' @
                      map (\<lambda>c. case map_of (zip ''abcdefghijklmnopqrstuvwxyz''
                                                ''ABCDEFGHIJKLMNOPQRSTUVWXYZ'') c of
                                  Some u \<Rightarrow> u | None \<Rightarrow> c) (take 1 n) @
                      drop 1 n) n)
               names []"
    by (simp only: reactEventName_table)
  with names have 1: "\<exists>names. map (\<lambda>m. at m 1) (matchAll content fires_re) = map Some names \<and>
           (\<forall>n\<in>set names. n \<noteq> [] \<and> list_all is_word n) \<and>
           extractEvents fs cp =
             fold (\<lambda>n. AList.update
                     (''on'' @
                      map (\<lambda>c. case map_of (zip ''abcdefghijklmnopqrstuvwxyz''
                                                ''ABCDEFGHIJKLMNOPQRSTUVWXYZ'') c of
                                  Some u \<Rightarrow> u | None \<Rightarrow> c) (take 1 n) @
                      drop 1 n) n)
               names []"
    by blast
  have 2: "\<forall>fs' ds' post'.
            readdir fs' (path_join cp ''internal'') = Inr ds' \<and>
            map dirent_name ds' = pre @ file # post' \<and>
            readFile fs' (path_join (path_join cp ''internal'') file) = Inr content \<longrightarrow>
            extractEvents fs' cp = extractEvents fs cp"
    using first first [OF assms(1,2,5)] by simp
  have 3: "reactEventName ''change'' = ''onChange''" by code_simp
  from 1 2 3 show ?thesis by blast
qed

text \<open>
  In \<open>fs_events\<close> the first candidate file has six annotations, whose names begin with a
  small letter, an underscore, a digit and a capital; the second candidate file, with the
  event \<open>activate\<close>, gives nothing.
\<close>

theorem extractEvents_first_candidate_witness:
  "readdir fs_events (path_join ''temp-material-web/list'' ''internal'') =
     Inr [Dirent ''list-styles.ts'' False, Dirent ''list.ts'' False, Dirent ''list-item.ts'' False] \<and>
   \<not> internal_candidate ''list-styles.ts'' \<and> internal_candidate ''list.ts'' \<and>
   internal_candidate ''list-item.ts'' \<and>
   readFile fs_events (path_join (path_join ''temp-material-web/list'' ''internal'') ''list.ts'') =
     Inr ''/**\<newline> * @fires change {Event} The selection changed. --bubbles\<newline> * @fires input {InputEvent} Text was entered.\<newline> * @fires _closed {Event} Closed.\<newline> * @fires 2fa {Event} Second factor.\<newline> * @fires Opened {Event} Opened.\<newline> * @fires zoom {Event} Zoomed.\<newline> */\<newline>export class List extends LitElement {}'' \<and>
   readFile fs_events (path_join (path_join ''temp-material-web/list'' ''internal'') ''list-item.ts'') =
     Inr ''/**\<newline> * @fires activate {Event} The item was activated.\<newline> */\<newline>export class ListItemEl extends LitElement {}'' \<and>
   extractEvents fs_events ''temp-material-web/list'' =
     [(''onChange'', ''change''), (''onInput'', ''input''), (''on_closed'', ''_closed''),
      (''on2fa'', ''2fa''), (''onOpened'', ''Opened''), (''onZoom'', ''zoom'')] \<and>
   extractEvents fs_events ''temp-material-web/list'' =
     fold (\<lambda>n. AList.update
             (''on'' @
              map (\<lambda>c. case map_of (zip ''abcdefghijklmnopqrstuvwxyz''
                                        ''ABCDEFGHIJKLMNOPQRSTUVWXYZ'') c of
                          Some u \<Rightarrow> u | None \<Rightarrow> c) (take 1 n) @
              drop 1 n) n)
       [''change'', ''input'', ''_closed'', ''2fa'', ''Opened'', ''zoom''] [] \<and>
   extractEvents
     (fs_events\<lparr>readdir := \<lambda>p. if p = ''temp-material-web/list/internal''
                               then Inr [Dirent ''list-styles.ts'' False, Dirent ''list.ts'' False]
                               else readdir fs_events p\<rparr>) ''temp-material-web/list'' =
   extractEvents fs_events ''temp-material-web/list''"
proof -
  let ?ds = "[Dirent ''list-styles.ts'' False, Dirent ''list.ts'' False, Dirent ''list-item.ts'' False]"
  let ?content = "''/**\<newline> * @fires change {Event} The selection changed. --bubbles\<newline> * @fires input {InputEvent} Text was entered.\<newline> * @fires _closed {Event} Closed.\<newline> * @fires 2fa {Event} Second factor.\<newline> * @fires Opened {Event} Opened.\<newline> * @fires zoom {Event} Zoomed.\<newline> */\<newline>export class List extends LitElement {}''"
  let ?fs' = "fs_events\<lparr>readdir := \<lambda>p. if p = ''temp-material-web/list/internal''
                               then Inr [Dirent ''list-styles.ts'' False, Dirent ''list.ts'' False]
                               else readdir fs_events p\<rparr>"
  let ?names = "[''change'', ''input'', ''_closed'', ''2fa'', ''Opened'', ''zoom'']"
  have h1: "readdir fs_events (path_join ''temp-material-web/list'' ''internal'') = Inr ?ds"
    by code_simp
  have h2: "map dirent_name ?ds = [''list-styles.ts''] @ ''list.ts'' # [''list-item.ts'']" by simp
  have n1: "\<not> internal_candidate ''list-styles.ts''" by code_simp
  then have h3: "\<forall>f\<in>set [''list-styles.ts'']. \<not> internal_candidate f" by simp
  have h4: "internal_candidate ''list.ts''" by code_simp
  have n2: "internal_candidate ''list-item.ts''" by code_simp
  have h5: "readFile fs_events (path_join (path_join ''temp-material-web/list'' ''internal'') ''list.ts'') =
     Inr ?content"
    by code_simp
  have n3: "readFile fs_events (path_join (path_join ''temp-material-web/list'' ''internal'') ''list-item.ts'') =
     Inr ''/**\<newline> * @fires activate {Event} The item was activated.\<newline> */\<newline>export class ListItemEl extends LitElement {}''"
    by code_simp
  have g1: "readdir ?fs' (path_join ''temp-material-web/list'' ''internal'') =
      Inr [Dirent ''list-styles.ts'' False, Dirent ''list.ts'' False]"
    by code_simp
  have g2: "map dirent_name [Dirent ''list-styles.ts'' False, Dirent ''list.ts'' False] =
      [''list-styles.ts''] @ ''list.ts'' # []"
    by simp
  have g3: "readFile ?fs' (path_join (path_join ''temp-material-web/list'' ''internal'') ''list.ts'') =
     Inr ?content"
    using h5 by simp
  have v: "extractEvents fs_events ''temp-material-web/list'' =
     [(''onChange'', ''change''), (''onInput'', ''input''), (''on_closed'', ''_closed''),
      (''on2fa'', ''2fa''), (''onOpened'', ''Opened''), (''onZoom'', ''zoom'')]"
    by code_simp
  have ms: "map (\<lambda>m. at m 1) (matchAll ?content fires_re) = map Some ?names"
    by code_simp
  note t = extractEvents_first_candidate [OF h1 h2 h3 h4 h5]
  from t obtain names where names: "map (\<lambda>m. at m 1) (matchAll ?content fires_re) = map Some names"
    "extractEvents fs_events ''temp-material-web/list'' =
     fold (\<lambda>n. AList.update
             (''on'' @
              map (\<lambda>c. case map_of (zip ''abcdefghijklmnopqrstuvwxyz''
                                        ''ABCDEFGHIJKLMNOPQRSTUVWXYZ'') c of
                          Some u \<Rightarrow> u | None \<Rightarrow> c) (take 1 n) @
              drop 1 n) n)
       names []"
    by blast
  from names(1) ms have "map Some names = map Some ?names" by (rule trans [OF sym])
  then have "names = ?names" by (simp only: inj_map_eq_map [OF inj_Some])
  with names(2) have f: "extractEvents fs_events ''temp-material-web/list'' =
     fold (\<lambda>n. AList.update
             (''on'' @
              map (\<lambda>c. case map_of (zip ''abcdefghijklmnopqrstuvwxyz''
                                        ''ABCDEFGHIJKLMNOPQRSTUVWXYZ'') c of
                          Some u \<Rightarrow> u | None \<Rightarrow> c) (take 1 n) @
              drop 1 n) n)
       ?names []"
    by (simp only:)
  from t g1 g2 g3 have s:
    "extractEvents ?fs' ''temp-material-web/list'' = extractEvents fs_events ''temp-material-web/list''"
    by blast
  show ?thesis
    by (intro conjI) (fact h1 n1 h4 n2 h5 n3 v f s)+
qed

section \<open>The variants of a directory\<close>

text \<open>
  When every candidate file of the listing can be read, the loop returns, in the order of the
  listing, one variant for each candidate file whose text has both markers and for which
  both extractions give a name.
\<close>

lemma variants_loop_readable:
  assumes "\<forall>f\<in>set files. candidate f \<longrightarrow> (\<exists>content. readFile fs (path_join cp f) = Inr content)"
  shows "\<exists>vs. variants_loop fs cp cn files = Inr vs \<and>
     map (\<lambda>v. (fileName v, Some (className v), Some (tagName v))) vs =
     map (\<lambda>f. (replace ''.ts'' [] f,
                extractClassName (projr (readFile fs (path_join cp f))),
                extractTagName (projr (readFile fs (path_join cp f)))))
       (filter (\<lambda>f. candidate f \<and>
                  includes_str (projr (readFile fs (path_join cp f))) ''@customElement'' \<and>
                  includes_str (projr (readFile fs (path_join cp f))) ''export class'' \<and>
                  extractClassName (projr (readFile fs (path_join cp f))) \<noteq> None \<and>
                  extractTagName (projr (readFile fs (path_join cp f))) \<noteq> None)
          files)"
  using assms
proof (induction files)
  case Nil
  then show ?case by simp
next
  case (Cons f files)
  then obtain vs where vs: "variants_loop fs cp cn files = Inr vs"
     "map (\<lambda>v. (fileName v, Some (className v), Some (tagName v))) vs =
     map (\<lambda>f. (replace ''.ts'' [] f,
                extractClassName (projr (readFile fs (path_join cp f))),
                extractTagName (projr (readFile fs (path_join cp f)))))
       (filter (\<lambda>f. candidate f \<and>
                  includes_str (projr (readFile fs (path_join cp f))) ''@customElement'' \<and>
                  includes_str (projr (readFile fs (path_join cp f))) ''export class'' \<and>
                  extractClassName (projr (readFile fs (path_join cp f))) \<noteq> None \<and>
                  extractTagName (projr (readFile fs (path_join cp f))) \<noteq> None)
          files)"
    by auto
  show ?case
  proof (cases "candidate f")
    case False
    then have "visit_file fs cp cn f = Inr None" by (simp add: visit_file_def)
    with vs False show ?thesis by simp
  next
    case True
    with Cons.prems obtain content where c: "readFile fs (path_join cp f) = Inr content" by auto
    note vf = visit_file_readable [OF True c, of cn]
    show ?thesis
    proof (cases "includes_str content ''@customElement'' \<and> includes_str content ''export class''")
      case False
      with vf have "visit_file fs cp cn f = Inr None" by auto
      with vs c False show ?thesis by auto
    next
      case inc: True
      show ?thesis
      proof (cases "extractClassName content")
        case None
        with vf inc have "visit_file fs cp cn f = Inr None" by simp
        with vs c None show ?thesis by simp
      next
        case (Some a)
        note sa = this
        show ?thesis
        proof (cases "extractTagName content")
          case None
          with vf inc sa have "visit_file fs cp cn f = Inr None" by simp
          with vs c None show ?thesis by simp
        next
          case (Some b)
          with vf inc sa vs c True show ?thesis by simp
        qed
      qed
    qed
  qed
qed

text \<open>
  Claim C1: for every candidate file of a component directory, a variant is produced if and
  only if the text has both markers and both extractions succeed, the class name being the
  first match of an exported class named \<open>Md\<close> followed by word characters and the tag name
  the first string-literal argument of \<open>@customElement\<close>. This does not hold for every
  candidate file. In \<open>fs_list\<close> the file \<open>menu/menu.ts\<close> has both markers and both
  extractions give a name, and the directory has no variant, because another candidate file
  of the directory cannot be read. In \<open>fs_tags\<close> the file \<open>tabs/spaced.ts\<close> has both
  markers, an exported class \<open>MdSpaced\<close> and a string-literal argument \<open>md-spaced\<close> after
  white space, and it gives no variant: the pattern of the tag name has no white space
  between the parenthesis and the quote.
\<close>

theorem candidate_with_both_declarations_without_variant:
  "candidate ''menu.ts'' \<and>
   readFile fs_list (path_join ''temp-material-web/menu'' ''menu.ts'') =
     Inr (''@customElement('' @ [CHR 0x27] @ ''md-list'' @ [CHR 0x27] @
          '')\<newline>export class MdList extends List {}'') \<and>
   includes_str (''@customElement('' @ [CHR 0x27] @ ''md-list'' @ [CHR 0x27] @
          '')\<newline>export class MdList extends List {}'') ''@customElement'' \<and>
   includes_str (''@customElement('' @ [CHR 0x27] @ ''md-list'' @ [CHR 0x27] @
          '')\<newline>export class MdList extends List {}'') ''export class'' \<and>
   extractClassName (''@customElement('' @ [CHR 0x27] @ ''md-list'' @ [CHR 0x27] @
          '')\<newline>export class MdList extends List {}'') = Some ''MdList'' \<and>
   extractTagName (''@customElement('' @ [CHR 0x27] @ ''md-list'' @ [CHR 0x27] @
          '')\<newline>export class MdList extends List {}'') = Some ''md-list'' \<and>
   findAllComponentVariants fs_list ''temp-material-web/menu'' ''menu'' = [] \<and>
   candidate ''spaced.ts'' \<and>
   readFile fs_tags (path_join ''temp-material-web/tabs'' ''spaced.ts'') =
     Inr ''@customElement( 'md-spaced' )\<newline>export class MdSpaced extends Spaced {}'' \<and>
   includes_str ''@customElement( 'md-spaced' )\<newline>export class MdSpaced extends Spaced {}''
     ''@customElement'' \<and>
   includes_str ''@customElement( 'md-spaced' )\<newline>export class MdSpaced extends Spaced {}''
     ''export class'' \<and>
   first_match class_decl
     ''@customElement( 'md-spaced' )\<newline>export class MdSpaced extends Spaced {}'' ''MdSpaced'' \<and>
   first_match string_literal_argument
     ''@customElement( 'md-spaced' )\<newline>export class MdSpaced extends Spaced {}'' ''md-spaced'' \<and>
   extractTagName ''@customElement( 'md-spaced' )\<newline>export class MdSpaced extends Spaced {}'' =
     None \<and>
   map fileName (findAllComponentVariants fs_tags ''temp-material-web/tabs'' ''tabs'') =
     [''tabs'', ''primary-tab'']"
proof -
  let ?a = "''@customElement('' @ [CHR 0x27] @ ''md-list'' @ [CHR 0x27] @
          '')\<newline>export class MdList extends List {}''"
  let ?b = "''@customElement( 'md-spaced' )\<newline>export class MdSpaced extends Spaced {}''"
  have a1: "candidate ''menu.ts''" by code_simp
  have a2: "readFile fs_list (path_join ''temp-material-web/menu'' ''menu.ts'') = Inr ?a"
    by code_simp
  have a3: "includes_str ?a ''@customElement''" by code_simp
  have a4: "includes_str ?a ''export class''" by code_simp
  have a5: "extractClassName ?a = Some ''MdList''" by code_simp
  have a6: "extractTagName ?a = Some ''md-list''" by code_simp
  have a7: "findAllComponentVariants fs_list ''temp-material-web/menu'' ''menu'' = []"
    by code_simp
  have b1: "candidate ''spaced.ts''" by code_simp
  have b2: "readFile fs_tags (path_join ''temp-material-web/tabs'' ''spaced.ts'') = Inr ?b"
    by code_simp
  have b3: "includes_str ?b ''@customElement''" by code_simp
  have b4: "includes_str ?b ''export class''" by code_simp
  have "extractClassName ?b = Some ''MdSpaced''" by code_simp
  then have b5: "first_match class_decl ?b ''MdSpaced''" by (simp only: extractClassName_first)
  have "string_literal_argument ?b ''md-spaced''"
    unfolding string_literal_argument_def
    by (intro exI [of _ "'' ''"] exI [of _ "CHR 0x27"]
          exI [of _ "'' )\<newline>export class MdSpaced extends Spaced {}''"])
       (simp add: is_space_def is_quote_def)
  then have b6: "first_match string_literal_argument ?b ''md-spaced''"
    unfolding first_match_def by (intro exI [of _ "[]"] exI [of _ ?b]) simp
  have b7: "extractTagName ?b = None" by code_simp
  have b8: "map fileName (findAllComponentVariants fs_tags ''temp-material-web/tabs'' ''tabs'') =
     [''tabs'', ''primary-tab'']"
    by code_simp
  show ?thesis
    by (intro conjI) (fact a1 a2 a3 a4 a5 a6 a7 b1 b2 b3 b4 b5 b6 b7 b8)+
qed

text \<open>
  Claim C1 as amended: for a directory that is listed, when every candidate file can be read
  the variants are, in the order of the listing, one for each candidate file whose text has
  both markers and for which both extractions give a name, with the file name without its
  first \<open>.ts\<close>, and the two names; when a candidate file cannot be read the directory has no
  variant. The class name is the first match of \<open>export class\<close>, a space, and \<open>Md\<close> followed
  by word characters; the tag name is the first match of \<open>@customElement(\<close>, a quote
  character, a non-empty text without quote characters, a quote character and \<open>)\<close>. For a
  text with a custom element of tag \<open>my-button\<close> and an exported class \<open>MdButton\<close> the
  extractions give \<open>MdButton\<close> and \<open>my-button\<close>.
\<close>

theorem variants_of_listed_directory:
  assumes "readdir fs cp = Inr ds"
  shows "((\<forall>f\<in>set (map dirent_name ds).
            candidate f \<longrightarrow> (\<exists>content. readFile fs (path_join cp f) = Inr content)) \<longrightarrow>
          (let src = (\<lambda>f. projr (readFile fs (path_join cp f))) in
             map (\<lambda>v. (fileName v, Some (className v), Some (tagName v)))
               (findAllComponentVariants fs cp cn) =
             map (\<lambda>f. (replace ''.ts'' [] f, extractClassName (src f), extractTagName (src f)))
               (filter (\<lambda>f. candidate f \<and>
                          includes_str (src f) ''@customElement'' \<and>
                          includes_str (src f) ''export class'' \<and>
                          extractClassName (src f) \<noteq> None \<and> extractTagName (src f) \<noteq> None)
                  (map dirent_name ds)))) \<and>
         ((\<exists>f\<in>set (map dirent_name ds). candidate f \<and> (\<exists>e. readFile fs (path_join cp f) = Inl e)) \<longrightarrow>
          findAllComponentVariants fs cp cn = []) \<and>
         (\<forall>content n. extractClassName content = Some n \<longleftrightarrow> first_match class_decl content n) \<and>
         (\<forall>content n. extractTagName content = Some n \<longleftrightarrow> first_match tag_decl content n) \<and>
         extractClassName (''@customElement('' @ [CHR 0x27] @ ''my-button'' @ [CHR 0x27] @
            '')\<newline>export class MdButton extends Button {}'') = Some ''MdButton'' \<and>
         extractTagName (''@customElement('' @ [CHR 0x27] @ ''my-button'' @ [CHR 0x27] @
            '')\<newline>export class MdButton extends Button {}'') = Some ''my-button''"
proof (intro conjI impI allI)
  assume "\<forall>f\<in>set (map dirent_name ds).
            candidate f \<longrightarrow> (\<exists>content. readFile fs (path_join cp f) = Inr content)"
  from variants_loop_readable [OF this, of cn] assms
  show "let src = (\<lambda>f. projr (readFile fs (path_join cp f))) in
             map (\<lambda>v. (fileName v, Some (className v), Some (tagName v)))
               (findAllComponentVariants fs cp cn) =
             map (\<lambda>f. (replace ''.ts'' [] f, extractClassName (src f), extractTagName (src f)))
               (filter (\<lambda>f. candidate f \<and>
                          includes_str (src f) ''@customElement'' \<and>
                          includes_str (src f) ''export class'' \<and>
                          extractClassName (src f) \<noteq> None \<and> extractTagName (src f) \<noteq> None)
                  (map dirent_name ds))"
    unfolding Let_def findAllComponentVariants_def by auto
next
  assume "\<exists>f\<in>set (map dirent_name ds). candidate f \<and> (\<exists>e. readFile fs (path_join cp f) = Inl e)"
  then obtain f e where "f \<in> set (map dirent_name ds)" "candidate f"
    "readFile fs (path_join cp f) = Inl e" by blast
  then obtain e' where "variants_loop fs cp cn (map dirent_name ds) = Inl e'"
    using variants_loop_unreadable by blast
  with assms show "findAllComponentVariants fs cp cn = []"
    by (simp add: findAllComponentVariants_def)
next
  fix content n
  show "extractClassName content = Some n \<longleftrightarrow> first_match class_decl content n"
    by (rule extractClassName_first)
next
  fix content n
  show "extractTagName content = Some n \<longleftrightarrow> first_match tag_decl content n"
    by (rule extractTagName_first)
next
  show "extractClassName (''@customElement('' @ [CHR 0x27] @ ''my-button'' @ [CHR 0x27] @
            '')\<newline>export class MdButton extends Button {}'') = Some ''MdButton''"
    by code_simp
next
  show "extractTagName (''@customElement('' @ [CHR 0x27] @ ''my-button'' @ [CHR 0x27] @
            '')\<newline>export class MdButton extends Button {}'') = Some ''my-button''"
    by code_simp
qed

text \<open>
  In \<open>fs_tags\<close> the directory \<open>tabs\<close> has five candidate files, all readable, of which two
  give a variant; in \<open>fs_list\<close> the directory \<open>menu\<close> has an unreadable candidate file.
\<close>

theorem variants_of_listed_directory_witness:
  "readdir fs_tags ''temp-material-web/tabs'' =
     Inr [Dirent ''tab.ts'' False, Dirent ''tabs.ts'' False, Dirent ''spaced.ts'' False,
          Dirent ''harness.ts'' False, Dirent ''primary-tab.ts'' False,
          Dirent ''internal'' True, Dirent ''tabs.scss'' False] \<and>
   filter candidate [''tab.ts'', ''tabs.ts'', ''spaced.ts'', ''harness.ts'', ''primary-tab.ts'',
                     ''internal'', ''tabs.scss''] =
     [''tab.ts'', ''tabs.ts'', ''spaced.ts'', ''harness.ts'', ''primary-tab.ts''] \<and>
   list_all (\<lambda>f. \<not> isl (readFile fs_tags (path_join ''temp-material-web/tabs'' f)))
     [''tab.ts'', ''tabs.ts'', ''spaced.ts'', ''harness.ts'', ''primary-tab.ts''] \<and>
   map (\<lambda>v. (fileName v, Some (className v), Some (tagName v)))
     (findAllComponentVariants fs_tags ''temp-material-web/tabs'' ''tabs'') =
     [(''tabs'', Some ''MdTabs'', Some ''md-tabs''),
      (''primary-tab'', Some ''MdPrimaryTab'', Some ''md-primary-tab'')] \<and>
   readdir fs_list ''temp-material-web/menu'' =
     Inr [Dirent ''menu.ts'' False, Dirent ''sub-menu.ts'' False, Dirent ''internal'' True] \<and>
   candidate ''sub-menu.ts'' \<and>
   readFile fs_list (path_join ''temp-material-web/menu'' ''sub-menu.ts'') = Inl EACCES \<and>
   findAllComponentVariants fs_list ''temp-material-web/menu'' ''menu'' = [] \<and>
   first_match class_decl
     ''@customElement('md-tabs')\<newline>export class MdTabs extends Tabs {}'' ''MdTabs'' \<and>
   first_match tag_decl
     ''@customElement('md-tabs')\<newline>export class MdTabs extends Tabs {}'' ''md-tabs''"
proof -
  let ?ds = "[Dirent ''tab.ts'' False, Dirent ''tabs.ts'' False, Dirent ''spaced.ts'' False,
          Dirent ''harness.ts'' False, Dirent ''primary-tab.ts'' False,
          Dirent ''internal'' True, Dirent ''tabs.scss'' False]"
  let ?files = "[''tab.ts'', ''tabs.ts'', ''spaced.ts'', ''harness.ts'', ''primary-tab.ts'',
                     ''internal'', ''tabs.scss'']"
  let ?menu = "[Dirent ''menu.ts'' False, Dirent ''sub-menu.ts'' False, Dirent ''internal'' True]"
  let ?content = "''@customElement('md-tabs')\<newline>export class MdTabs extends Tabs {}''"
  have h1: "readdir fs_tags ''temp-material-web/tabs'' = Inr ?ds" by code_simp
  have f: "filter candidate ?files =
      [''tab.ts'', ''tabs.ts'', ''spaced.ts'', ''harness.ts'', ''primary-tab.ts'']"
    by code_simp
  have r: "list_all (\<lambda>f. \<not> isl (readFile fs_tags (path_join ''temp-material-web/tabs'' f)))
     [''tab.ts'', ''tabs.ts'', ''spaced.ts'', ''harness.ts'', ''primary-tab.ts'']"
    by code_simp
  have h2: "\<forall>f\<in>set (map dirent_name ?ds).
      candidate f \<longrightarrow> (\<exists>content. readFile fs_tags (path_join ''temp-material-web/tabs'' f) = Inr content)"
  proof (intro ballI impI)
    fix f assume "f \<in> set (map dirent_name ?ds)" "candidate f"
    moreover have "map dirent_name ?ds = ?files" by simp
    ultimately have "f \<in> set ?files \<and> candidate f" by (simp only:)
    then have "f \<in> set (filter candidate ?files)" by (simp only: set_filter mem_Collect_eq)
    moreover have "\<forall>f\<in>set (filter candidate ?files).
        \<not> isl (readFile fs_tags (path_join ''temp-material-web/tabs'' f))"
      using r unfolding f list_all_iff .
    ultimately have "\<not> isl (readFile fs_tags (path_join ''temp-material-web/tabs'' f))"
      by (rule bspec [rotated])
    then show "\<exists>content. readFile fs_tags (path_join ''temp-material-web/tabs'' f) = Inr content"
      by (cases "readFile fs_tags (path_join ''temp-material-web/tabs'' f)") simp_all
  qed
  have v: "map (\<lambda>f. (replace ''.ts'' [] f,
                extractClassName (projr (readFile fs_tags (path_join ''temp-material-web/tabs'' f))),
                extractTagName (projr (readFile fs_tags (path_join ''temp-material-web/tabs'' f)))))
       (filter (\<lambda>f. candidate f \<and>
                  includes_str (projr (readFile fs_tags (path_join ''temp-material-web/tabs'' f))) ''@customElement'' \<and>
                  includes_str (projr (readFile fs_tags (path_join ''temp-material-web/tabs'' f))) ''export class'' \<and>
                  extractClassName (projr (readFile fs_tags (path_join ''temp-material-web/tabs'' f))) \<noteq> None \<and>
                  extractTagName (projr (readFile fs_tags (path_join ''temp-material-web/tabs'' f))) \<noteq> None)
          (map dirent_name ?ds)) =
     [(''tabs'', Some ''MdTabs'', Some ''md-tabs''),
      (''primary-tab'', Some ''MdPrimaryTab'', Some ''md-primary-tab'')]"
    by code_simp
  have g1: "readdir fs_list ''temp-material-web/menu'' = Inr ?menu" by code_simp
  have g2: "candidate ''sub-menu.ts''" by code_simp
  have g3: "readFile fs_list (path_join ''temp-material-web/menu'' ''sub-menu.ts'') = Inl EACCES"
    by code_simp
  have g4: "\<exists>f\<in>set (map dirent_name ?menu).
      candidate f \<and> (\<exists>e. readFile fs_list (path_join ''temp-material-web/menu'' f) = Inl e)"
    using g2 g3 by (intro bexI [of _ "''sub-menu.ts''"]) auto
  have e1: "extractClassName ?content = Some ''MdTabs''" by code_simp
  have e2: "extractTagName ?content = Some ''md-tabs''" by code_simp
  note t = variants_of_listed_directory [OF h1, of "''tabs''"]
  from t h2 have A: "map (\<lambda>v. (fileName v, Some (className v), Some (tagName v)))
     (findAllComponentVariants fs_tags ''temp-material-web/tabs'' ''tabs'') =
     [(''tabs'', Some ''MdTabs'', Some ''md-tabs''),
      (''primary-tab'', Some ''MdPrimaryTab'', Some ''md-primary-tab'')]"
    unfolding Let_def v by blast
  from variants_of_listed_directory [OF g1, of "''menu''"] g4
  have B: "findAllComponentVariants fs_list ''temp-material-web/menu'' ''menu'' = []" by blast
  from t e1 have C: "first_match class_decl ?content ''MdTabs''" by blast
  from t e2 have D: "first_match tag_decl ?content ''md-tabs''" by blast
  show ?thesis
    by (intro conjI) (fact h1 f r A g1 g2 g3 B C D)+
qed

section \<open>Class documentation\<close>

text \<open>
  Claim C2: the class documentation is made of the lines of the nearest documentation block
  before the class export, and holds no text of earlier blocks or of the code between.
  The pattern starts at the first \<open>/**\<close> of the text and its lazy group runs over every
  \<open>*/\<close> that is not followed by \<open>export class\<close>. The file \<open>button/button.ts\<close> of \<open>fs_docs\<close>
  has a licence block, an import, the decorator and the documented class; it is a candidate
  file with both markers, and the documentation of its variant holds the licence line, the
  import and the comment markers in between, before the line \<open>A button.\<close> of the block of
  the class.
\<close>

theorem classDoc_takes_earlier_blocks:
  "candidate ''button.ts'' \<and>
   readFile fs_docs (path_join ''temp-material-web/button'' ''button.ts'') =
     Inr ''/**\<newline> * @license\<newline> * Copyright 2021 Google LLC\<newline> */\<newline>import {Button} from './internal/button.js';\<newline>@customElement('md-button')\<newline>/**\<newline> * A button.\<newline> */\<newline>export class MdButton extends Button {}\<newline>'' \<and>
   map (\<lambda>v. (className v, tagName v, documentation v))
     (findAllComponentVariants fs_docs ''temp-material-web/button'' ''button'') =
     [(''MdButton'', ''md-button'',
       ''Copyright 2021 Google LLC\<newline>/\<newline>import {Button} from './internal/button.js';\<newline>/**\<newline>A button.'')] \<and>
   map_sum id (map (\<lambda>c. (name c, map documentation (variants c))))
     (analyzeComponentStructure fs_docs) =
     Inr [(''button'', [''Copyright 2021 Google LLC\<newline>/\<newline>import {Button} from './internal/button.js';\<newline>/**\<newline>A button.'']),
          (''switch'', [[]]), (''chip'', [[]])]"
  by (intro conjI; code_simp)

section \<open>Property documentation\<close>

text \<open>
  Claim C3: two adjacent documented properties give two keys, one for each property
  identifier, each with the text of its own block. The name group of the pattern takes the
  first word after white space behind \<open>@property\<close>, which inside \<open>({type: Boolean})\<close> is
  the type: in the variant of \<open>switch/switch.ts\<close> of \<open>fs_docs\<close> both properties get the key
  \<open>Boolean\<close>, and the second text replaces the first.
\<close>

theorem propertyDocs_keyed_by_type:
  "candidate ''switch.ts'' \<and>
   readFile fs_docs (path_join ''temp-material-web/switch'' ''switch.ts'') =
     Inr ''@customElement('md-switch')\<newline>export class MdSwitch extends LitElement {\<newline>  /**\<newline>   * Whether the switch is disabled.\<newline>   */\<newline>  @property({type: Boolean}) disabled = false;\<newline>\<newline>  /**\<newline>   * Whether the switch is selected.\<newline>   */\<newline>  @property({type: Boolean}) selected = false;\<newline>}\<newline>'' \<and>
   map (\<lambda>v. (className v, tagName v, propertyDocs v))
     (findAllComponentVariants fs_docs ''temp-material-web/switch'' ''switch'') =
     [(''MdSwitch'', ''md-switch'', [(''Boolean'', ''Whether the switch is selected.'')])]"
  by (intro conjI; code_simp)

text \<open>
  When the decorator has no white space before its closing brace, the match fails at the
  first block and the lazy group runs on to the next one: in the variant of \<open>chip/chip.ts\<close>
  the text of the first block and the code between stand under the key of the second
  property.
\<close>

lemma propertyDocs_leak:
  "readFile fs_docs (path_join ''temp-material-web/chip'' ''chip.ts'') =
     Inr ''@customElement('md-chip')\<newline>export class MdChip extends LitElement {\<newline>  /** Whether the chip is disabled. */\<newline>  @property({attribute:false})\<newline>  disabled = false;\<newline>\<newline>  /** Whether the chip is selected. */\<newline>  @property() selected = false;\<newline>}\<newline>'' \<and>
   map (\<lambda>v. (className v, tagName v, propertyDocs v))
     (findAllComponentVariants fs_docs ''temp-material-web/chip'' ''chip'') =
     [(''MdChip'', ''md-chip'',
       [(''selected'',
         ''Whether the chip is disabled. */ disabled = false; /** Whether the chip is selected.'')])]"
  by (intro conjI; code_simp)

end
